theory Spec2Isabelle
  imports Main "HOL-Library.Monad_Syntax"
begin

section \<open>Calendar time\<close>

text \<open>
  The scheduler works on Go's \<^verbatim>\<open>time.Time\<close>. Every instant it builds is built by
  \<^verbatim>\<open>time.Date(..., time.Local)\<close>, and every instant is read back through the accessors
  \<^verbatim>\<open>Year()\<close>, \<^verbatim>\<open>Month()\<close>, \<^verbatim>\<open>Day()\<close>, \<^verbatim>\<open>Weekday()\<close>, \<^verbatim>\<open>Hour()\<close>, \<^verbatim>\<open>Minute()\<close>, \<^verbatim>\<open>Second()\<close>,
  \<^verbatim>\<open>Nanosecond()\<close>. An instant is therefore kept as its civil reading; the location
  \<^verbatim>\<open>time.Local\<close> is taken to be a zone of fixed offset zero (no daylight saving), so
  that the zero value \<^verbatim>\<open>time.Time{}\<close> (January 1 of year 1, 00:00:00 UTC) lives on the
  same clock. Comparison (\<^verbatim>\<open>Before\<close>, \<^verbatim>\<open>After\<close>, \<^verbatim>\<open>Equal\<close>) is comparison of the instants,
  counted in nanoseconds.
\<close>

record time =
  Year :: int
  Month :: nat
  Day :: nat
  Hour :: nat
  Minute :: nat
  Second :: nat
  Nanosecond :: nat

definition zeroTime :: time where
  "zeroTime = \<lparr>Year = 1, Month = 1, Day = 1, Hour = 0, Minute = 0, Second = 0, Nanosecond = 0\<rparr>"

definition isLeap :: "int \<Rightarrow> bool" where
  "isLeap y = (y mod 4 = 0 \<and> (y mod 100 \<noteq> 0 \<or> y mod 400 = 0))"

definition daysIn :: "int \<Rightarrow> nat \<Rightarrow> nat" where
  "daysIn y m =
     (if m = 2 then (if isLeap y then 29 else 28)
      else if m = 4 \<or> m = 6 \<or> m = 9 \<or> m = 11 then 30 else 31)"

text \<open>Days of a common year that lie before the first of month \<open>m\<close> (the library's table).\<close>

definition daysBefore :: "nat \<Rightarrow> int" where
  "daysBefore m =
     (if m = 1 then 0 else if m = 2 then 31 else if m = 3 then 59 else if m = 4 then 90
      else if m = 5 then 120 else if m = 6 then 151 else if m = 7 then 181
      else if m = 8 then 212 else if m = 9 then 243 else if m = 10 then 273
      else if m = 11 then 304 else 334)"

text \<open>
  The number of the day \<open>(y, m, d)\<close>, counted from January 1 of year 1 as day 1, in the
  proleptic Gregorian calendar. It is linear in \<open>d\<close>, so it also numbers a day written
  out of range (day 0, day 32) as the library's normalisation reads it.
\<close>

definition dayNumber :: "int \<Rightarrow> nat \<Rightarrow> int \<Rightarrow> int" where
  "dayNumber y m d =
     365 * (y - 1) + (y - 1) div 4 - (y - 1) div 100 + (y - 1) div 400
       + daysBefore m + (if isLeap y \<and> 2 < m then 1 else 0) + d"

definition instant :: "time \<Rightarrow> int" where
  "instant t =
     ((dayNumber (Year t) (Month t) (int (Day t)) * 86400
        + int (Hour t) * 3600 + int (Minute t) * 60 + int (Second t)) * 1000000000)
      + int (Nanosecond t)"

definition Before :: "time \<Rightarrow> time \<Rightarrow> bool" where
  "Before t u = (instant t < instant u)"

definition After :: "time \<Rightarrow> time \<Rightarrow> bool" where
  "After t u = (instant u < instant t)"

definition Equal :: "time \<Rightarrow> time \<Rightarrow> bool" where
  "Equal t u = (instant t = instant u)"

text \<open>\<^verbatim>\<open>Weekday()\<close>: 0 is Sunday; January 1 of year 1 is a Monday.\<close>

definition Weekday :: "time \<Rightarrow> nat" where
  "Weekday t = nat (dayNumber (Year t) (Month t) (int (Day t)) mod 7)"

text \<open>
  \<^verbatim>\<open>time.Date\<close> normalises its arguments: the month overflows into the year, nanoseconds
  into seconds, seconds into minutes, minutes into hours, hours into days, and the day
  count is then read as a calendar date. The scheduler never passes a negative clock
  value or nanosecond count, so these are naturals; year, month and day are integers.
\<close>

definition normYear :: "int \<Rightarrow> int \<Rightarrow> int" where
  "normYear y m = y + (m - 1) div 12"

definition normMonth :: "int \<Rightarrow> nat" where
  "normMonth m = nat ((m - 1) mod 12) + 1"

function normDay :: "int \<Rightarrow> nat \<Rightarrow> int \<Rightarrow> int \<times> nat \<times> nat" where
  "normDay y m d =
     (if d < 1 then
        normDay (if m \<le> 1 then y - 1 else y) (if m \<le> 1 then 12 else m - 1)
          (d + int (daysIn (if m \<le> 1 then y - 1 else y) (if m \<le> 1 then 12 else m - 1)))
      else if int (daysIn y m) < d then
        normDay (if 12 \<le> m then y + 1 else y) (if 12 \<le> m then 1 else m + 1)
          (d - int (daysIn y m))
      else (y, m, nat d))"
  by pat_completeness auto
termination
  by (relation "measure (\<lambda>(y, m, d). if d < 1 then nat (1 - d) + 32 else nat d)")
     (auto simp: daysIn_def)

declare normDay.simps [simp del]

definition Date :: "int \<Rightarrow> int \<Rightarrow> int \<Rightarrow> nat \<Rightarrow> nat \<Rightarrow> nat \<Rightarrow> nat \<Rightarrow> time" where
  "Date year month day hour minute sec nsec =
     (let sec1 = sec + nsec div 1000000000;
          min1 = minute + sec1 div 60;
          hour1 = hour + min1 div 60;
          day1 = day + int (hour1 div 24);
          (y, m, d) = normDay (normYear year month) (normMonth month) day1
      in \<lparr>Year = y, Month = m, Day = d, Hour = hour1 mod 24, Minute = min1 mod 60,
          Second = sec1 mod 60, Nanosecond = nsec mod 1000000000\<rparr>)"

text \<open>\<^verbatim>\<open>t.Add(d)\<close> for a duration of \<open>d\<close> nanoseconds, \<open>d\<close> not negative.\<close>

definition Add :: "time \<Rightarrow> nat \<Rightarrow> time" where
  "Add t d =
     Date (Year t) (int (Month t)) (int (Day t)) (Hour t) (Minute t) (Second t)
       (Nanosecond t + d)"

definition AddDate :: "time \<Rightarrow> int \<Rightarrow> int \<Rightarrow> int \<Rightarrow> time" where
  "AddDate t years months days =
     Date (Year t + years) (int (Month t) + months) (int (Day t) + days)
       (Hour t) (Minute t) (Second t) (Nanosecond t)"

definition Second_ns :: nat where "Second_ns = 1000000000"
definition Minute_ns :: nat where "Minute_ns = 60 * Second_ns"
definition Hour_ns :: nat where "Hour_ns = 60 * Minute_ns"

text \<open>A civil reading is well formed when every component is in its calendar range.\<close>

definition valid_time :: "time \<Rightarrow> bool" where
  "valid_time t =
     (1 \<le> Month t \<and> Month t \<le> 12 \<and> 1 \<le> Day t \<and> Day t \<le> daysIn (Year t) (Month t)
      \<and> Hour t < 24 \<and> Minute t < 60 \<and> Second t < 60 \<and> Nanosecond t < 1000000000)"

section \<open>Fields and triggers\<close>

text \<open>
  A \<^verbatim>\<open>calculate\<close> closure of the source captures the trigger it belongs to and the
  numbers parsed from its token; it is kept as the closure's kind with the captured
  numbers, and run by \<open>runCalculate\<close> below on the trigger it rewrites.
  \<open>None\<close> is the nil function value.
\<close>

datatype calc =
    DayLast
  | DayLastWork
  | DayNearWork nat
  | WeekLast int
  | WeekNth nat nat

record field =
  name :: string
  isRange :: bool
  start :: nat
  end' :: nat
  increment :: nat
  values' :: "nat list"
  calculate :: "calc option"

record trigger =
  cron :: string
  sec :: field
  min' :: field
  hour :: field
  day :: field
  mon :: field
  week :: field

definition maxDeep :: nat where "maxDeep = 10"
definition secField :: string where "secField = ''sec''"
definition minField :: string where "minField = ''min''"
definition hourField :: string where "hourField = ''hour''"
definition dayField :: string where "dayField = ''day''"
definition monField :: string where "monField = ''mon''"
definition weekField :: string where "weekField = ''week''"

text \<open>The zero value of \<^verbatim>\<open>field\<close> with a name, as \<^verbatim>\<open>&field{name: n}\<close> builds it.\<close>

definition newField :: "string \<Rightarrow> field" where
  "newField n = \<lparr>name = n, isRange = False, start = 0, end' = 0, increment = 0,
                  values' = [], calculate = None\<rparr>"

section \<open>Searching a field for the next value\<close>

function getRangeNextValue_loop :: "nat \<Rightarrow> nat \<Rightarrow> nat \<Rightarrow> nat option" where
  "getRangeNextValue_loop i e nowValue =
     (if i \<le> e then
        (if nowValue \<le> i then Some i else getRangeNextValue_loop (i + 1) e nowValue)
      else None)"
  by pat_completeness auto
termination
  by (relation "measure (\<lambda>(i, e, nowValue). e + 1 - i)") auto

declare getRangeNextValue_loop.simps [simp del]

definition getRangeNextValue :: "nat \<Rightarrow> nat \<Rightarrow> nat \<Rightarrow> nat \<times> bool" where
  "getRangeNextValue s e nowValue =
     (case getRangeNextValue_loop s e nowValue of
        Some i \<Rightarrow> (i, True)
      | None \<Rightarrow> (s, False))"

fun getIncreaseNextValue_loop :: "nat list \<Rightarrow> nat \<Rightarrow> nat option" where
  "getIncreaseNextValue_loop [] nowValue = None"
| "getIncreaseNextValue_loop (v # vs) nowValue =
     (if nowValue \<le> v then Some v else getIncreaseNextValue_loop vs nowValue)"

text \<open>
  When no value is found the source reads \<^verbatim>\<open>values[0]\<close>, which panics on an empty
  slice: the result \<open>None\<close> is that panic.
\<close>

definition getIncreaseNextValue :: "nat list \<Rightarrow> nat \<Rightarrow> (nat \<times> bool) option" where
  "getIncreaseNextValue vs nowValue =
     (case getIncreaseNextValue_loop vs nowValue of
        Some v \<Rightarrow> Some (v, True)
      | None \<Rightarrow> (case vs of [] \<Rightarrow> None | v0 # _ \<Rightarrow> Some (v0, False)))"

function getRangeDayNextValue_loop ::
  "nat \<Rightarrow> nat \<Rightarrow> int \<Rightarrow> nat \<Rightarrow> nat \<Rightarrow> nat \<Rightarrow> nat" where
  "getRangeDayNextValue_loop i e year nextMonth d nextWeekDay =
     (if i \<le> e then
        (if d \<le> i \<and> Weekday (Date year (int nextMonth) (int i) 0 0 0 0) = nextWeekDay
         then i
         else getRangeDayNextValue_loop (i + 1) e year nextMonth d nextWeekDay)
      else 0)"
  by pat_completeness auto
termination
  by (relation "measure (\<lambda>(i, e, year, nextMonth, d, nextWeekDay). e + 1 - i)") auto

declare getRangeDayNextValue_loop.simps [simp del]

definition getRangeDayNextValue ::
  "nat \<Rightarrow> nat \<Rightarrow> int \<Rightarrow> nat \<Rightarrow> nat \<Rightarrow> nat \<Rightarrow> nat" where
  "getRangeDayNextValue s e year nextMonth d nextWeekDay =
     getRangeDayNextValue_loop s e year nextMonth d nextWeekDay"

fun getIncreaseDayNextValue ::
  "nat list \<Rightarrow> int \<Rightarrow> nat \<Rightarrow> nat \<Rightarrow> nat \<Rightarrow> nat" where
  "getIncreaseDayNextValue [] year nextMonth d nextWeekDay = 0"
| "getIncreaseDayNextValue (i # vs) year nextMonth d nextWeekDay =
     (if d \<le> i \<and> Weekday (Date year (int nextMonth) (int i) 0 0 0 0) = nextWeekDay
      then i
      else getIncreaseDayNextValue vs year nextMonth d nextWeekDay)"

definition getYearMonthDays :: "int \<Rightarrow> int \<Rightarrow> int" where
  "getYearMonthDays year month =
     (if month = 1 \<or> month = 3 \<or> month = 5 \<or> month = 7 \<or> month = 8 \<or> month = 10
         \<or> month = 12 then 31
      else if month = 4 \<or> month = 6 \<or> month = 9 \<or> month = 11 then 30
      else if (year mod 4 = 0 \<and> year mod 100 \<noteq> 0) \<or> year mod 400 = 0 then 29
      else 28)"

text \<open>
  The weekday loops walk the calendar one day at a time until a test on the weekday or
  the month holds. Nothing in a loop's own text bounds it, so each is a partial function:
  \<open>None\<close> is a loop that never ends.
\<close>

partial_function (option) getLatestWorkDay_loop :: "time \<Rightarrow> time option" where
  "getLatestWorkDay_loop t =
     (if Weekday t = 0 \<or> Weekday t = 6
      then getLatestWorkDay_loop (AddDate t 0 0 (- 1))
      else Some t)"

declare getLatestWorkDay_loop.simps [code]

text \<open>The result of the source is a pointer: the inner \<open>None\<close> is nil.\<close>

definition getLatestWorkDay :: "int \<Rightarrow> int \<Rightarrow> int \<Rightarrow> time option option" where
  "getLatestWorkDay year month d =
     (case getLatestWorkDay_loop (Date year month d 0 0 0 0) of
        None \<Rightarrow> None
      | Some t \<Rightarrow> Some (if int (Month t) \<noteq> month then None else Some t))"

partial_function (option) getMonthLatestWeek_loop :: "time \<Rightarrow> int \<Rightarrow> time option" where
  "getMonthLatestWeek_loop t weekDay =
     (if int (Weekday t) \<noteq> weekDay
      then getMonthLatestWeek_loop (AddDate t 0 0 (- 1)) weekDay
      else Some t)"

declare getMonthLatestWeek_loop.simps [code]

definition getMonthLatestWeek :: "int \<Rightarrow> int \<Rightarrow> int \<Rightarrow> time option" where
  "getMonthLatestWeek year month weekDay =
     getMonthLatestWeek_loop
       (Date year month (getYearMonthDays year month) 0 0 0 0) weekDay"

partial_function (option) getMonthAfterLatestWeek_loop :: "time \<Rightarrow> int \<Rightarrow> time option" where
  "getMonthAfterLatestWeek_loop t weekDay =
     (if int (Weekday t) \<noteq> weekDay
      then getMonthAfterLatestWeek_loop (AddDate t 0 0 1) weekDay
      else Some t)"

declare getMonthAfterLatestWeek_loop.simps [code]

definition getMonthAfterLatestWeek :: "int \<Rightarrow> int \<Rightarrow> int \<Rightarrow> int \<Rightarrow> time option" where
  "getMonthAfterLatestWeek year month d weekDay =
     getMonthAfterLatestWeek_loop (Date year month d 0 0 0 0) weekDay"

partial_function (option) getMonthWeekByWeekNumDay_loop ::
  "time \<Rightarrow> nat \<Rightarrow> int \<Rightarrow> nat \<Rightarrow> nat \<Rightarrow> time option option" where
  "getMonthWeekByWeekNumDay_loop t tempWeekNum month weekNum weekDay =
     (if int (Month t) = month then
        (if Weekday t = weekDay then
           (if tempWeekNum + 1 = weekNum then Some (Some t)
            else getMonthWeekByWeekNumDay_loop (AddDate t 0 0 1) (tempWeekNum + 1)
                   month weekNum weekDay)
         else getMonthWeekByWeekNumDay_loop (AddDate t 0 0 1) tempWeekNum
                month weekNum weekDay)
      else Some None)"

declare getMonthWeekByWeekNumDay_loop.simps [code]

definition getMonthWeekByWeekNumDay ::
  "int \<Rightarrow> int \<Rightarrow> nat \<Rightarrow> nat \<Rightarrow> time option option" where
  "getMonthWeekByWeekNumDay year month weekNum weekDay =
     getMonthWeekByWeekNumDay_loop (Date year month 1 0 0 0 0) 0 month weekNum weekDay"

section \<open>The closures of the special day and week tokens\<close>

text \<open>
  Each closure overwrites fields of the trigger that owns it and reports whether the
  month has the day asked for. \<open>DayLast\<close> is the closure of \<^verbatim>\<open>L\<close>, \<open>DayLastWork\<close> of
  \<^verbatim>\<open>LW\<close>, \<open>DayNearWork day\<close> of \<^verbatim>\<open>NW\<close> in the day field; \<open>WeekLast weekNum\<close> is the
  closure of \<^verbatim>\<open>L\<close> and \<^verbatim>\<open>NL\<close>, \<open>WeekNth weekNum weekDay\<close> of \<^verbatim>\<open>N#M\<close> in the week field.
  The outer \<open>None\<close> is a run that returns nothing: a loop that does not end, or the
  nil dereference in the closure of \<^verbatim>\<open>LW\<close>.
\<close>

definition setDayField :: "trigger \<Rightarrow> nat \<Rightarrow> trigger" where
  "setDayField t d = t\<lparr>day := (day t)\<lparr>isRange := True, start := d, end' := d\<rparr>\<rparr>"

definition setWeekField :: "trigger \<Rightarrow> nat \<Rightarrow> trigger" where
  "setWeekField t w = t\<lparr>week := (week t)\<lparr>isRange := True, start := w, end' := w\<rparr>\<rparr>"

fun runCalculate :: "calc \<Rightarrow> trigger \<Rightarrow> int \<Rightarrow> int \<Rightarrow> (bool \<times> trigger) option" where
  "runCalculate DayLast t year month =
     Some (True, setDayField t (nat (getYearMonthDays year month)))"
| "runCalculate DayLastWork t year month =
     (case getLatestWorkDay year month (getYearMonthDays year month) of
        None \<Rightarrow> None
      | Some None \<Rightarrow> None
      | Some (Some tempTime) \<Rightarrow> Some (True, setDayField t (Day tempTime)))"
| "runCalculate (DayNearWork d) t year month =
     (case getLatestWorkDay year month (int d) of
        None \<Rightarrow> None
      | Some None \<Rightarrow> Some (False, t)
      | Some (Some tempTime) \<Rightarrow> Some (True, setDayField t (Day tempTime)))"
| "runCalculate (WeekLast weekNum) t year month =
     (case getMonthLatestWeek year month weekNum of
        None \<Rightarrow> None
      | Some now \<Rightarrow> Some (True, setDayField (setWeekField t (Weekday now)) (Day now)))"
| "runCalculate (WeekNth weekNum weekDay) t year month =
     (case getMonthWeekByWeekNumDay year month weekNum weekDay of
        None \<Rightarrow> None
      | Some None \<Rightarrow> Some (False, t)
      | Some (Some now) \<Rightarrow> Some (True, setDayField (setWeekField t (Weekday now)) (Day now)))"

section \<open>The next fire time\<close>

text \<open>
  The test \<^verbatim>\<open>if f.isRange { getRangeNextValue(...) } else { getIncreaseNextValue(...) }\<close>,
  which the source writes out for the month, the weekday, the hour, the minute and the
  second.
\<close>

definition fieldNextValue :: "field \<Rightarrow> nat \<Rightarrow> (nat \<times> bool) option" where
  "fieldNextValue f nowValue =
     (if isRange f then Some (getRangeNextValue (start f) (end' f) nowValue)
      else getIncreaseNextValue (values' f) nowValue)"

text \<open>
  One pass through the body of \<^verbatim>\<open>trigger.next\<close> ends either with the fire time
  (\<open>Found\<close>) or with \<^verbatim>\<open>return t.next(x, deep)\<close> (\<open>Carry x\<close>).
\<close>

datatype step = Found time | Carry time

text \<open>Hour, minute and second (the source from the comment on the hour to the end).\<close>

definition nextClock :: "trigger \<Rightarrow> time \<Rightarrow> int \<Rightarrow> nat \<Rightarrow> nat \<Rightarrow> step option" where
  "nextClock t now nextYear nextMonth nextDay =
     (let year = Year now; month = Month now; d = Day now;
          h = Hour now; m = Minute now; s = Second now;
          startHour = (if \<not> (nextYear = year \<and> nextMonth = month \<and> nextDay = d) then 0 else h)
      in case fieldNextValue (hour t) startHour of
        None \<Rightarrow> None
      | Some (nextHour, isFind) \<Rightarrow>
        if \<not> isFind then
          Some (Carry (Add (Date nextYear (int nextMonth) (int nextDay) nextHour 0 0 0)
                         (24 * Hour_ns)))
        else
          (let startMin =
                 (if \<not> (nextYear = year \<and> nextMonth = month \<and> nextDay = d \<and> nextHour = h)
                  then 0 else m)
           in case fieldNextValue (min' t) startMin of
             None \<Rightarrow> None
           | Some (nextMin, isFind) \<Rightarrow>
             if \<not> isFind then
               Some (Carry (Add (Date nextYear (int nextMonth) (int nextDay) nextHour nextMin 0 0)
                              Hour_ns))
             else
               (let startSec =
                      (if \<not> (nextYear = year \<and> nextMonth = month \<and> nextDay = d
                              \<and> nextHour = h \<and> nextMin = m)
                       then 0 else s)
                in case fieldNextValue (sec t) startSec of
                  None \<Rightarrow> None
                | Some (nextSec, isFind) \<Rightarrow>
                  if \<not> isFind then
                    Some (Carry (Add (Date nextYear (int nextMonth) (int nextDay)
                                        nextHour nextMin nextSec 0) Minute_ns))
                  else
                    Some (Found (Date nextYear (int nextMonth) (int nextDay)
                                   nextHour nextMin nextSec 0)))))"

text \<open>The day when neither the day field nor the week field has a closure.\<close>

definition nextPlainDay :: "trigger \<Rightarrow> time \<Rightarrow> int \<Rightarrow> nat \<Rightarrow> step option" where
  "nextPlainDay t now nextYear nextMonth =
     (let year = Year now; month = Month now; weekDay = Weekday now; d = Day now;
          startWeekDay = (if \<not> (nextYear = year \<and> nextMonth = month) then 0 else weekDay);
          startDay = (if \<not> (nextYear = year \<and> nextMonth = month) then 1 else d)
      in case fieldNextValue (week t) startWeekDay of
        None \<Rightarrow> None
      | Some (nextWeekDay, isFind) \<Rightarrow>
        if \<not> isFind then
          (case getMonthAfterLatestWeek nextYear (int nextMonth) (int startDay)
                  (int nextWeekDay) of
             None \<Rightarrow> None
           | Some tempDate \<Rightarrow> Some (Carry tempDate))
        else
          (let nextDay =
                 (if isRange (day t) then
                    getRangeDayNextValue (start (day t)) (end' (day t)) nextYear nextMonth
                      startDay nextWeekDay
                  else
                    getIncreaseDayNextValue (values' (day t)) nextYear nextMonth
                      startDay nextWeekDay)
           in nextClock t now nextYear nextMonth nextDay))"

text \<open>
  The body of \<^verbatim>\<open>trigger.next\<close> after the depth guard. The year of the source is a
  \<^verbatim>\<open>uint\<close> made from an \<^verbatim>\<open>int\<close> and turned back into one before use, and is only
  incremented and compared for equality: it is kept as the integer.
\<close>

definition nextStep :: "trigger \<Rightarrow> time \<Rightarrow> (step \<times> trigger) option" where
  "nextStep t now =
     (let month = Month now; h = Hour now; m = Minute now; s = Second now;
          nextYear = Year now
      in case fieldNextValue (mon t) month of
        None \<Rightarrow> None
      | Some (nextMonth, isFind) \<Rightarrow>
        if \<not> isFind then
          Some (Carry (Date (nextYear + 1) (int nextMonth) 1 0 0 0 0), t)
        else if calculate (week t) \<noteq> None \<or> calculate (day t) \<noteq> None then
          (case (case calculate (week t) of
                   Some c \<Rightarrow> runCalculate c t nextYear (int nextMonth)
                 | None \<Rightarrow>
                     (case calculate (day t) of
                        Some c \<Rightarrow> runCalculate c t nextYear (int nextMonth)
                      | None \<Rightarrow> None)) of
             None \<Rightarrow> None
           | Some (isFind, t') \<Rightarrow>
             (let nextDay = start (day t') in
              if \<not> isFind
                 \<or> Before (Date nextYear (int nextMonth) (int nextDay) h m s (Nanosecond now)) now
              then
                Some (Carry (AddDate (Date nextYear (int nextMonth) 1 0 0 0 0) 0 1 0), t')
              else
                (case nextClock t' now nextYear nextMonth nextDay of
                   None \<Rightarrow> None
                 | Some r \<Rightarrow> Some (r, t'))))
        else
          (case nextPlainDay t now nextYear nextMonth of
             None \<Rightarrow> None
           | Some r \<Rightarrow> Some (r, t)))"

text \<open>
  \<^verbatim>\<open>trigger.next(now, deeps...)\<close>. The variadic \<^verbatim>\<open>deeps\<close> is the list; the first call
  passes none. The result is the fire time with the trigger as the closures left it;
  \<open>None\<close> is a call that returns nothing.
\<close>

function trigger_next :: "trigger \<Rightarrow> time \<Rightarrow> nat list \<Rightarrow> (time \<times> trigger) option" where
  "trigger_next t now deeps =
     (let deep = (case deeps of [] \<Rightarrow> 0 | d # _ \<Rightarrow> d) in
      if deeps \<noteq> [] \<and> maxDeep < deep then Some (zeroTime, t)
      else
        (case nextStep t now of
           None \<Rightarrow> None
         | Some (Found r, t') \<Rightarrow> Some (r, t')
         | Some (Carry x, t') \<Rightarrow> trigger_next t' x [deep + 1]))"
  by pat_completeness auto
termination
  by (relation "measure (\<lambda>(t, now, deeps). maxDeep + 1 - (case deeps of [] \<Rightarrow> 0 | d # _ \<Rightarrow> d))")
     (auto split: list.splits)

declare trigger_next.simps [simp del]

section \<open>Parsing an expression\<close>

text \<open>
  The strings are Go strings read as bytes. \<^verbatim>\<open>strings.Split\<close> is only called with a
  separator of one byte, \<^verbatim>\<open>strings.IndexByte\<close> gives the first index or \<open>-1\<close>.
\<close>

fun Split :: "string \<Rightarrow> char \<Rightarrow> string list" where
  "Split [] sep = [[]]"
| "Split (c # cs) sep =
     (if c = sep then [] # Split cs sep
      else (case Split cs sep of [] \<Rightarrow> [[c]] | w # ws \<Rightarrow> (c # w) # ws))"

fun IndexByte_from :: "nat \<Rightarrow> string \<Rightarrow> char \<Rightarrow> int" where
  "IndexByte_from i [] c = - 1"
| "IndexByte_from i (x # xs) c = (if x = c then int i else IndexByte_from (i + 1) xs c)"

definition IndexByte :: "string \<Rightarrow> char \<Rightarrow> int" where
  "IndexByte s c = IndexByte_from 0 s c"

text \<open>Indexing a slice; \<open>None\<close> is the panic of an index out of range.\<close>

definition at :: "'a list \<Rightarrow> nat \<Rightarrow> 'a option" where
  "at xs i = (if i < length xs then Some (xs ! i) else None)"

datatype numError = ErrSyntax | ErrRange

text \<open>
  The error values of the parser, one constructor for each message of the source with
  the values the message is formatted from; \<open>StrconvError\<close> is the error of
  \<^verbatim>\<open>strconv.ParseUint\<close> handed on as it is.
\<close>

datatype error =
    StrconvError string numError
  | AliasError string string string string
  | FieldsCountNot6
  | NotPositiveInteger string string
  | RangeShouldBe_0_59 string
  | RangeShouldBeIn string nat nat
  | StartGreaterThanEnd string string nat nat
  | StartNotPositiveInteger string string string
  | IncrementNotPositiveInteger string string string
  | IncrementShouldBePositive string
  | DayFieldShouldBeIn_1_31 string
  | MonthFieldShouldBeAlias
  | MonthFieldShouldBeIn_1_12 string
  | DayMustBeWildcard
  | WeekLNotPositiveInteger string
  | WeekLShouldBeIn_0_6 string
  | WeekDayNotPositiveInteger string
  | WeekDayShouldBeIn_0_6 string
  | WeekNumNotPositiveInteger string
  | WeekNumShouldBeIn_1_4 string
  | WeekFieldShouldBeAlias
  | WeekFieldShouldBeIn_0_6 string

text \<open>
  \<^verbatim>\<open>strconv.ParseUint(s, 10, 8)\<close>: decimal digits only, no sign; the value with no
  error, \<open>0\<close> with a syntax error, \<open>255\<close> with a range error as soon as the digits read
  so far exceed 255.
\<close>

definition digitOf :: "char \<Rightarrow> nat option" where
  "digitOf c =
     (let b = (of_char c :: nat) in
      if of_char (CHR ''0'') \<le> b \<and> b \<le> of_char (CHR ''9'') then Some (b - of_char (CHR ''0''))
      else None)"

fun ParseUint_loop :: "string \<Rightarrow> nat \<Rightarrow> string \<Rightarrow> nat \<times> error option" where
  "ParseUint_loop s0 n [] = (n, None)"
| "ParseUint_loop s0 n (c # cs) =
     (case digitOf c of
        None \<Rightarrow> (0, Some (StrconvError s0 ErrSyntax))
      | Some d \<Rightarrow>
          (if 255 < n * 10 + d then (255, Some (StrconvError s0 ErrRange))
           else ParseUint_loop s0 (n * 10 + d) cs))"

definition ParseUint :: "string \<Rightarrow> nat \<times> error option" where
  "ParseUint s = (if s = [] then (0, Some (StrconvError s ErrSyntax)) else ParseUint_loop s 0 s)"

definition ranges :: "string \<Rightarrow> (nat \<times> nat) option" where
  "ranges =
     map_of [(secField, (0, 59)), (minField, (0, 59)), (hourField, (0, 23)),
             (dayField, (1, 31)), (monField, (1, 12)), (weekField, (0, 6))]"

definition monsAlias :: "string \<Rightarrow> nat option" where
  "monsAlias =
     map_of [(''JAN'', 1), (''FEB'', 2), (''MAR'', 3), (''APR'', 4), (''MAY'', 5), (''JUN'', 6),
             (''JUL'', 7), (''AUG'', 8), (''SEP'', 9), (''OCT'', 10), (''NOV'', 11), (''DEC'', 12)]"

definition weekAlias :: "string \<Rightarrow> nat option" where
  "weekAlias =
     map_of [(''SUN'', 0), (''MON'', 1), (''TUE'', 2), (''WED'', 3), (''THU'', 4), (''FRI'', 5),
             (''SAT'', 6)]"

text \<open>
  \<^verbatim>\<open>checkAlias\<close> writes the alias's number through the pointer \<^verbatim>\<open>num\<close>: the result is the
  error, if any, and the number behind the pointer afterwards.
\<close>

definition checkAlias :: "string \<Rightarrow> string \<Rightarrow> field \<Rightarrow> nat \<Rightarrow> error option \<times> nat" where
  "checkAlias str v f num =
     (if name f = weekField then
        (case weekAlias v of
           Some a \<Rightarrow> (None, a)
         | None \<Rightarrow> (Some (AliasError (name f) str v ''SUN-SAT''), num))
      else if name f = monField then
        (case monsAlias v of
           Some a \<Rightarrow> (None, a)
         | None \<Rightarrow> (Some (AliasError (name f) str v ''JAN-DEC''), num))
      else (None, num))"

text \<open>
  The step the source writes three times:
  \<^verbatim>\<open>v, err := strconv.ParseUint(a, 10, 8); if err != nil && checkAlias(str, a, f, &v) != nil { return err }\<close>.
  \<open>Inr\<close> is the number the code goes on with.
\<close>

definition parseOrAlias :: "string \<Rightarrow> string \<Rightarrow> field \<Rightarrow> error + nat" where
  "parseOrAlias str a f =
     (case ParseUint a of
        (v, None) \<Rightarrow> Inr v
      | (v, Some err) \<Rightarrow>
          (case checkAlias str a f v of
             (None, v') \<Rightarrow> Inr v'
           | (Some _, _) \<Rightarrow> Inl err))"

text \<open>
  A parser returns \<open>Some (Inl e)\<close> for the error \<open>e\<close>, \<open>Some (Inr f)\<close> for the field it
  filled, and \<open>None\<close> when it returns nothing (a panic, a loop without end).
\<close>

definition parserRangeField :: "string \<Rightarrow> string list \<Rightarrow> field \<Rightarrow> (error + field) option" where
  "parserRangeField str arr f =
     (case ranges (name f) of
        None \<Rightarrow> None
      | Some (mn, mx) \<Rightarrow>
        (case at arr 0 of
           None \<Rightarrow> None
         | Some a0 \<Rightarrow>
           (case parseOrAlias str a0 f of
              Inl err \<Rightarrow> Some (Inl err)
            | Inr start0 \<Rightarrow>
              if start0 < mn \<or> mx < start0 then Some (Inl (RangeShouldBeIn (name f) mn mx))
              else
                (case at arr 1 of
                   None \<Rightarrow> None
                 | Some a1 \<Rightarrow>
                   (case parseOrAlias str a1 f of
                      Inl err \<Rightarrow> Some (Inl err)
                    | Inr end0 \<Rightarrow>
                      if end0 < mn \<or> mx < end0 then
                        Some (Inl (RangeShouldBeIn (name f) mn mx))
                      else if end0 < start0 then
                        Some (Inl (StartGreaterThanEnd (name f) str start0 end0))
                      else
                        Some (Inr (f\<lparr>isRange := True, start := start0, end' := end0\<rparr>)))))))"

partial_function (option) parserIncreaseField_loop ::
  "nat \<Rightarrow> nat \<Rightarrow> nat \<Rightarrow> nat list \<Rightarrow> nat list option" where
  "parserIncreaseField_loop i e inc vs =
     (if i \<le> e then parserIncreaseField_loop (i + inc) e inc (vs @ [i]) else Some vs)"

declare parserIncreaseField_loop.simps [code]

definition parserIncreaseField ::
  "string \<Rightarrow> string list \<Rightarrow> field \<Rightarrow> (error + field) option" where
  "parserIncreaseField str arr f =
     (case ranges (name f) of
        None \<Rightarrow> None
      | Some (mn, mx) \<Rightarrow>
        (case at arr 0 of
           None \<Rightarrow> None
         | Some a0 \<Rightarrow>
           (case (if a0 \<noteq> ''*'' then
                    (case ParseUint a0 of
                       (start0, Some err) \<Rightarrow>
                         Inl (StartNotPositiveInteger (name f) str a0)
                     | (start0, None) \<Rightarrow>
                         if start0 < mn \<or> mx < start0 then Inl (RangeShouldBeIn (name f) mn mx)
                         else Inr start0)
                  else Inr mn) of
              Inl err \<Rightarrow> Some (Inl err)
            | Inr start0 \<Rightarrow>
              (case at arr 1 of
                 None \<Rightarrow> None
               | Some a1 \<Rightarrow>
                 (case ParseUint a1 of
                    (increment0, Some err) \<Rightarrow>
                      Some (Inl (IncrementNotPositiveInteger (name f) str a1))
                  | (increment0, None) \<Rightarrow>
                      if increment0 = 0 then Some (Inl (IncrementShouldBePositive (name f)))
                      else if increment0 < mn \<or> mx < increment0 then
                        Some (Inl (RangeShouldBeIn (name f) mn mx))
                      else
                        (case parserIncreaseField_loop start0 mx increment0 (values' f) of
                           None \<Rightarrow> None
                         | Some vs \<Rightarrow>
                             Some (Inr (f\<lparr>isRange := False, start := start0, end' := mx,
                                          increment := increment0, values' := vs\<rparr>))))))))"

fun parserEnumField_loop ::
  "string \<Rightarrow> string list \<Rightarrow> field \<Rightarrow> nat \<Rightarrow> nat \<Rightarrow> nat list \<Rightarrow> error + nat list" where
  "parserEnumField_loop str [] f mn mx vs = Inr vs"
| "parserEnumField_loop str (a # as) f mn mx vs =
     (case parseOrAlias str a f of
        Inl err \<Rightarrow> Inl err
      | Inr tempNum \<Rightarrow>
          if tempNum < mn \<or> mx < tempNum then Inl (RangeShouldBeIn (name f) mn mx)
          else parserEnumField_loop str as f mn mx (vs @ [tempNum]))"

definition parserEnumField :: "string \<Rightarrow> string list \<Rightarrow> field \<Rightarrow> (error + field) option" where
  "parserEnumField str arr f =
     (case ranges (name f) of
        None \<Rightarrow> None
      | Some (mn, mx) \<Rightarrow>
        (case parserEnumField_loop str arr f mn mx [] of
           Inl err \<Rightarrow> Some (Inl err)
         | Inr vs \<Rightarrow> Some (Inr (f\<lparr>isRange := False, values' := sort vs\<rparr>))))"

text \<open>
  Second, minute and hour: the body of the loop over \<^verbatim>\<open>units\<close> in \<^verbatim>\<open>parse\<close>, for the
  field named \<open>unit\<close> and its token \<open>str\<close>.
\<close>

definition parserClockField :: "string \<Rightarrow> string \<Rightarrow> (error + field) option" where
  "parserClockField unit str =
     (let f = newField unit in
      if str = ''*'' then
        (case ranges (name f) of
           None \<Rightarrow> None
         | Some (mn, mx) \<Rightarrow> Some (Inr (f\<lparr>isRange := True, start := 0, end' := mx\<rparr>)))
      else if - 1 < IndexByte str (CHR ''-'') then
        parserRangeField str (Split str (CHR ''-'')) f
      else if - 1 < IndexByte str (CHR ''/'') then
        parserIncreaseField str (Split str (CHR ''/'')) f
      else if - 1 < IndexByte str (CHR '','') then
        parserEnumField str (Split str (CHR '','')) f
      else
        (case ParseUint str of
           (start0, Some err) \<Rightarrow> Some (Inl (NotPositiveInteger unit str))
         | (start0, None) \<Rightarrow>
             if 59 < start0 then Some (Inl (RangeShouldBe_0_59 unit))
             else Some (Inr (f\<lparr>isRange := True, start := start0, end' := start0\<rparr>))))"

definition parserDayField :: "string \<Rightarrow> (error + field) option" where
  "parserDayField s =
     (let f = newField dayField in
      if s = ''*'' \<or> s = ''?'' then Some (Inr (f\<lparr>isRange := True, start := 1, end' := 31\<rparr>))
      else if - 1 < IndexByte s (CHR ''-'') then
        parserRangeField s (Split s (CHR ''-'')) f
      else if - 1 < IndexByte s (CHR ''/'') then
        parserIncreaseField s (Split s (CHR ''/'')) f
      else if - 1 < IndexByte s (CHR '','') then
        parserEnumField s (Split s (CHR '','')) f
      else if s = ''L'' then Some (Inr (f\<lparr>calculate := Some DayLast\<rparr>))
      else if s = ''LW'' then Some (Inr (f\<lparr>calculate := Some DayLastWork\<rparr>))
      else if - 1 < IndexByte s (CHR ''W'') then
        (case ParseUint (take (nat (IndexByte s (CHR ''W''))) s) of
           (d, _) \<Rightarrow> Some (Inr (f\<lparr>calculate := Some (DayNearWork d)\<rparr>)))
      else
        (case ParseUint s of
           (d, _) \<Rightarrow>
             if d < 1 \<or> 31 < d then Some (Inl (DayFieldShouldBeIn_1_31 s))
             else Some (Inr (f\<lparr>isRange := True, start := d, end' := d\<rparr>))))"

definition parserMonField :: "string \<Rightarrow> (error + field) option" where
  "parserMonField s =
     (let f = newField monField in
      if s = ''*'' then Some (Inr (f\<lparr>isRange := True, start := 1, end' := 12\<rparr>))
      else if - 1 < IndexByte s (CHR ''-'') then
        parserRangeField s (Split s (CHR ''-'')) f
      else if - 1 < IndexByte s (CHR ''/'') then
        parserIncreaseField s (Split s (CHR ''/'')) f
      else if - 1 < IndexByte s (CHR '','') then
        parserEnumField s (Split s (CHR '','')) f
      else
        (case (case ParseUint s of
                 (m, Some err) \<Rightarrow>
                   (case monsAlias s of
                      None \<Rightarrow> Inl MonthFieldShouldBeAlias
                    | Some alias \<Rightarrow> Inr alias)
               | (m, None) \<Rightarrow>
                   if m < 1 \<or> 12 < m then Inl (MonthFieldShouldBeIn_1_12 s) else Inr m) of
           Inl err \<Rightarrow> Some (Inl err)
         | Inr start0 \<Rightarrow> Some (Inr (f\<lparr>isRange := True, start := start0, end' := start0\<rparr>))))"

text \<open>
  The week parser reads the day token again from the expression of the trigger, which
  is the argument \<open>cronExpression\<close>.
\<close>

definition parserWeekField :: "string \<Rightarrow> string \<Rightarrow> (error + field) option" where
  "parserWeekField cronExpression s =
     (if s = ''*'' \<or> s = ''?'' then
        Some (Inr ((newField [])\<lparr>isRange := True, start := 0, end' := 6\<rparr>))
      else
        (let f = newField weekField in
         case at (Split cronExpression (CHR '' '')) 3 of
           None \<Rightarrow> None
         | Some a3 \<Rightarrow>
           if a3 \<noteq> ''*'' \<and> a3 \<noteq> ''?'' then Some (Inl DayMustBeWildcard)
           else if - 1 < IndexByte s (CHR ''-'') then
             parserRangeField s (Split s (CHR ''-'')) f
           else if - 1 < IndexByte s (CHR ''/'') then
             parserIncreaseField s (Split s (CHR ''/'')) f
           else if - 1 < IndexByte s (CHR '','') then
             parserEnumField s (Split s (CHR '','')) f
           else if - 1 < IndexByte s (CHR ''L'') then
             (case (if s = ''L'' then Inr 6
                    else
                      (case ParseUint (take (nat (IndexByte s (CHR ''L''))) s) of
                         (start0, Some err) \<Rightarrow> Inl (WeekLNotPositiveInteger s)
                       | (start0, None) \<Rightarrow>
                           if 6 < start0 then Inl (WeekLShouldBeIn_0_6 s)
                           else Inr (int start0))) of
                Inl err \<Rightarrow> Some (Inl err)
              | Inr weekNum \<Rightarrow> Some (Inr (f\<lparr>calculate := Some (WeekLast weekNum)\<rparr>)))
           else if - 1 < IndexByte s (CHR ''#'') then
             (case ParseUint (take (nat (IndexByte s (CHR ''#''))) s) of
                (weekDay, Some err) \<Rightarrow> Some (Inl (WeekDayNotPositiveInteger s))
              | (weekDay, None) \<Rightarrow>
                  if 6 < weekDay then Some (Inl (WeekDayShouldBeIn_0_6 s))
                  else
                    (case ParseUint (drop (nat (IndexByte s (CHR ''#'')) + 1) s) of
                       (weekNum, Some err) \<Rightarrow> Some (Inl (WeekNumNotPositiveInteger s))
                     | (weekNum, None) \<Rightarrow>
                         if weekNum < 1 \<or> 4 < weekNum then Some (Inl (WeekNumShouldBeIn_1_4 s))
                         else Some (Inr (f\<lparr>calculate := Some (WeekNth weekNum weekDay)\<rparr>))))
           else
             (case (case ParseUint s of
                      (w, Some err) \<Rightarrow>
                        (case weekAlias s of
                           None \<Rightarrow> Inl WeekFieldShouldBeAlias
                         | Some alias \<Rightarrow> Inr alias)
                    | (w, None) \<Rightarrow>
                        if 6 < w then Inl (WeekFieldShouldBeIn_0_6 s) else Inr w) of
                Inl err \<Rightarrow> Some (Inl err)
              | Inr start0 \<Rightarrow>
                  Some (Inr (f\<lparr>isRange := True, start := start0, end' := start0\<rparr>)))))"

text \<open>\<^verbatim>\<open>err = ...; if err != nil { return err }\<close>\<close>

definition andThen ::
  "(error + 'a) option \<Rightarrow> ('a \<Rightarrow> (error + 'b) option) \<Rightarrow> (error + 'b) option" where
  "andThen r k = (case r of None \<Rightarrow> None | Some (Inl err) \<Rightarrow> Some (Inl err) | Some (Inr x) \<Rightarrow> k x)"

text \<open>
  \<^verbatim>\<open>trigger.parse\<close> on a trigger whose \<^verbatim>\<open>cron\<close> is \<open>cronExpression\<close>, as \<^verbatim>\<open>newTrigger\<close>
  calls it. A trigger is used only when no error is returned, so the result is the
  error or the filled trigger.
\<close>

definition parse :: "string \<Rightarrow> (error + trigger) option" where
  "parse cronExpression =
     (let arr = Split cronExpression (CHR '' '') in
      if length arr \<noteq> 6 then Some (Inl FieldsCountNot6)
      else
        andThen (parserClockField secField (arr ! 0)) (\<lambda>fsec.
        andThen (parserClockField minField (arr ! 1)) (\<lambda>fmin.
        andThen (parserClockField hourField (arr ! 2)) (\<lambda>fhour.
        andThen (parserDayField (arr ! 3)) (\<lambda>fday.
        andThen (parserMonField (arr ! 4)) (\<lambda>fmon.
        andThen (parserWeekField cronExpression (arr ! 5)) (\<lambda>fweek.
          Some (Inr \<lparr>cron = cronExpression, sec = fsec, min' = fmin, hour = fhour,
                      day = fday, mon = fmon, week = fweek\<rparr>))))))))"

definition newTrigger :: "string \<Rightarrow> (error + trigger) option" where
  "newTrigger cronExpression = parse cronExpression"

section \<open>Jobs\<close>

text \<open>
  The callback of a job is an opaque value of type \<open>'f\<close>. \<^verbatim>\<open>time.Now()\<close> in \<^verbatim>\<open>newJob\<close>
  is the argument \<open>now\<close>. The pointer \<^verbatim>\<open>nextTime\<close> is \<open>None\<close> when nil.
\<close>

record 'f job =
  j_id :: nat
  j_t :: trigger
  j_fun :: 'f
  j_nextTime :: "time option"
  j_running :: bool

definition newJob :: "string \<Rightarrow> 'f \<Rightarrow> time \<Rightarrow> (error + 'f job) option" where
  "newJob cronExpression f now =
     (case newTrigger cronExpression of
        None \<Rightarrow> None
      | Some (Inl err) \<Rightarrow> Some (Inl err)
      | Some (Inr tr) \<Rightarrow>
          (case trigger_next tr now [] of
             None \<Rightarrow> None
           | Some (r, tr') \<Rightarrow>
               Some (Inr \<lparr>j_id = 0, j_t = tr', j_fun = f, j_nextTime = Some r,
                           j_running = False\<rparr>)))"


section \<open>The scheduler's job set\<close>

text \<open>
  The map and the slice of the scheduler hold pointers to the same job objects. The
  objects live in \<open>c_heap\<close>, a pointer is an index into it, and \<^verbatim>\<open>new(job)\<close> takes the
  next index. The timer, the mutex and the wait group are left out; a call of \<^verbatim>\<open>AddJob\<close>
  or \<^verbatim>\<open>Remove\<close> holds the mutex from its first write to its end, so no other goroutine
  writes the map, the slice or the counter meanwhile.

  The counter \<^verbatim>\<open>id\<close> and the ids are \<^verbatim>\<open>uint\<close>, taken with 64 bits: they are natural
  numbers below \<open>2 ^ 64\<close>, and \<^verbatim>\<open>c.id++\<close> wraps from \<open>2 ^ 64 - 1\<close> to 0.

  A channel is its closed flag and the number of elements in its buffer. Both channels
  are made with capacity 1.
\<close>

record chan =
  closed :: bool
  buffered :: nat

record 'f Scheduler =
  c_heap :: "'f job list"
  c_jobMap :: "nat \<rightharpoonup> nat"
  c_jobs :: "nat list"
  c_id :: nat
  c_running :: bool
  c_runState :: bool
  c_stop :: chan
  c_jobChan :: chan

definition New :: "'f Scheduler" where
  "New = \<lparr>c_heap = [], c_jobMap = Map.empty, c_jobs = [], c_id = 0, c_running = False,
          c_runState = False, c_stop = \<lparr>closed = False, buffered = 0\<rparr>,
          c_jobChan = \<lparr>closed = False, buffered = 0\<rparr>\<rparr>"

text \<open>
  The statement \<^verbatim>\<open>ch <- struct{}{}\<close> on a channel of capacity 1. On a closed channel it
  panics. With room in the buffer it puts the element there and goes on. On a full
  buffer it waits until a receiver has taken an element, which no statement of the
  sending call brings about.
\<close>

datatype sending = Sent chan | SendWaits | SendPanics

definition send :: "chan \<Rightarrow> sending" where
  "send ch =
     (if closed ch then SendPanics
      else if buffered ch < 1 then Sent (ch\<lparr>buffered := buffered ch + 1\<rparr>)
      else SendWaits)"

text \<open>
  How a call ends, with the scheduler as the call leaves it: it returns a result, it
  panics, or it waits at a send. A call that waits goes on only when another goroutine
  receives from the channel; on a scheduler that was never started none does, and
  the call stays there, holding the mutex.
\<close>

datatype ('r, 's) outcome = Returns 'r 's | Panics 's | Waits 's

text \<open>
  \<^verbatim>\<open>AddJob\<close>. A call of \<^verbatim>\<open>newJob\<close> that returns nothing returns nothing here either, and
  has written nothing.
\<close>

definition AddJob_run ::
  "'f Scheduler \<Rightarrow> string \<Rightarrow> 'f \<Rightarrow> time
   \<Rightarrow> (nat \<times> error option, 'f Scheduler) outcome" where
  "AddJob_run c cronExpression f now =
     (case newJob cronExpression f now of
        None \<Rightarrow> Panics c
      | Some (Inl err) \<Rightarrow> Returns (0, Some err) c
      | Some (Inr j0) \<Rightarrow>
          (let c1 = c\<lparr>c_id := (c_id c + 1) mod 2 ^ 64\<rparr>;
               j = j0\<lparr>j_id := c_id c1\<rparr>;
               a = length (c_heap c1);
               c2 = c1\<lparr>c_heap := c_heap c1 @ [j], c_jobs := c_jobs c1 @ [a]\<rparr>;
               c3 = c2\<lparr>c_jobMap := (c_jobMap c2)(j_id j \<mapsto> a)\<rparr>
           in if c_running c3 then
                (case send (c_jobChan c3) of
                   SendPanics \<Rightarrow> Panics c3
                 | SendWaits \<Rightarrow> Waits c3
                 | Sent ch \<Rightarrow> Returns (j_id j, None) (c3\<lparr>c_jobChan := ch\<rparr>))
              else Returns (j_id j, None) c3))"

text \<open>
  What \<^verbatim>\<open>AddJob\<close> returns, the id and the error, with the scheduler it leaves; \<open>None\<close> is
  a call that does not return.
\<close>

definition AddJob ::
  "'f Scheduler \<Rightarrow> string \<Rightarrow> 'f \<Rightarrow> time \<Rightarrow> ((nat \<times> error option) \<times> 'f Scheduler) option" where
  "AddJob c cronExpression f now =
     (case AddJob_run c cronExpression f now of
        Returns r c' \<Rightarrow> Some (r, c')
      | Panics _ \<Rightarrow> None
      | Waits _ \<Rightarrow> None)"



section \<open>Well-formed triggers and scheduler states\<close>

text \<open>
  What the parser establishes about a trigger and the closures keep: a field that is
  searched is a range or has a value, the month lies in 1 to 12, a weekday that is
  searched for lies in 0 to 6.
\<close>

definition plainField :: "field \<Rightarrow> bool" where
  "plainField f = (isRange f \<or> values' f \<noteq> [])"

definition fieldWithin :: "field \<Rightarrow> nat \<Rightarrow> nat \<Rightarrow> bool" where
  "fieldWithin f lo hi =
     (if isRange f then lo \<le> start f \<and> start f \<le> hi \<and> end' f \<le> hi
      else values' f \<noteq> [] \<and> list_all (\<lambda>v. lo \<le> v \<and> v \<le> hi) (values' f))"

fun wf_calc :: "calc \<Rightarrow> bool" where
  "wf_calc (WeekLast weekNum) = (0 \<le> weekNum \<and> weekNum \<le> 6)"
| "wf_calc _ = True"

definition wf_trigger :: "trigger \<Rightarrow> bool" where
  "wf_trigger t =
     (plainField (sec t) \<and> plainField (min' t) \<and> plainField (hour t)
      \<and> fieldWithin (mon t) 1 12
      \<and> (case calculate (week t) of
            Some c \<Rightarrow> wf_calc c
          | None \<Rightarrow>
              (case calculate (day t) of
                 Some c \<Rightarrow> wf_calc c
               | None \<Rightarrow> fieldWithin (week t) 0 6)))"

text \<open>
  The map and the slice describe the same jobs: the slice holds each of its jobs once,
  every pointer of it is a pointer to an object, and the map sends an id to a job
  exactly when that job is in the slice and has that id. So an id is a key of the map
  exactly when a job of the slice has it, and no two jobs of the slice share an id.
\<close>

definition mapMatchesSlice :: "'f Scheduler \<Rightarrow> bool" where
  "mapMatchesSlice c =
     (distinct (c_jobs c)
      \<and> (\<forall>a \<in> set (c_jobs c). a < length (c_heap c))
      \<and> (\<forall>i a. (c_jobMap c i = Some a) = (a \<in> set (c_jobs c) \<and> j_id (c_heap c ! a) = i)))"

text \<open>
  The id that the next \<^verbatim>\<open>AddJob\<close> gives is no key of the map. This holds as long as the
  counter has not wrapped: no key is above the counter (the second predicate), and the
  counter is not the greatest \<^verbatim>\<open>uint\<close>.
\<close>

definition nextIdFresh :: "'f Scheduler \<Rightarrow> bool" where
  "nextIdFresh c = (c_jobMap c ((c_id c + 1) mod 2 ^ 64) = None)"


text \<open>The scheduler that a call leaves, however the call ends.\<close>

fun leaves :: "('r, 's) outcome \<Rightarrow> 's" where
  "leaves (Returns r s) = s"
| "leaves (Panics s) = s"
| "leaves (Waits s) = s"

text \<open>
  The depth guard in other words: the resolver with a number of passes through its
  body left. Each carry uses one pass up; with none left the result is the zero time.
\<close>

fun nextWithin :: "nat \<Rightarrow> trigger \<Rightarrow> time \<Rightarrow> (time \<times> trigger) option" where
  "nextWithin 0 t now = Some (zeroTime, t)"
| "nextWithin (Suc n) t now =
     (case nextStep t now of
        None \<Rightarrow> None
      | Some (Found r, t') \<Rightarrow> Some (r, t')
      | Some (Carry x, t') \<Rightarrow> nextWithin n t' x)"

section \<open>Values used in the examples\<close>

definition plainRange :: "string \<Rightarrow> nat \<Rightarrow> nat \<Rightarrow> field" where
  "plainRange n lo hi = \<lparr>name = n, isRange = True, start = lo, end' = hi, increment = 0,
                          values' = [], calculate = None\<rparr>"

text \<open>The trigger of \<^verbatim>\<open>* * * * * ?\<close>\<close>

definition everySecond :: trigger where
  "everySecond =
     \<lparr>cron = ''* * * * * ?'', sec = plainRange ''sec'' 0 59, min' = plainRange ''min'' 0 59,
      hour = plainRange ''hour'' 0 23, day = plainRange ''day'' 1 31,
      mon = plainRange ''mon'' 1 12, week = plainRange [] 0 6\<rparr>"

text \<open>The trigger of \<^verbatim>\<open>0 0 23 L * ?\<close>, as \<^verbatim>\<open>parse\<close> leaves it.\<close>

definition lastDay23 :: trigger where
  "lastDay23 =
     \<lparr>cron = ''0 0 23 L * ?'', sec = plainRange ''sec'' 0 0, min' = plainRange ''min'' 0 0,
      hour = plainRange ''hour'' 23 23,
      day = (newField ''day'')\<lparr>calculate := Some DayLast\<rparr>,
      mon = plainRange ''mon'' 1 12, week = plainRange [] 0 6\<rparr>"

text \<open>The trigger of \<^verbatim>\<open>0 30 9 1 * ?\<close>\<close>

definition firstDay0930 :: trigger where
  "firstDay0930 =
     \<lparr>cron = ''0 30 9 1 * ?'', sec = plainRange ''sec'' 0 0, min' = plainRange ''min'' 30 30,
      hour = plainRange ''hour'' 9 9, day = plainRange ''day'' 1 1,
      mon = plainRange ''mon'' 1 12, week = plainRange [] 0 6\<rparr>"

text \<open>The trigger of \<^verbatim>\<open>0 0 0 1 1 ?\<close>\<close>

definition newYearMidnight :: trigger where
  "newYearMidnight =
     \<lparr>cron = ''0 0 0 1 1 ?'', sec = plainRange ''sec'' 0 0, min' = plainRange ''min'' 0 0,
      hour = plainRange ''hour'' 0 0, day = plainRange ''day'' 1 1,
      mon = plainRange ''mon'' 1 1, week = plainRange [] 0 6\<rparr>"

text \<open>The trigger of \<^verbatim>\<open>0 0 0 31W 2 ?\<close>, as \<^verbatim>\<open>parse\<close> leaves it.\<close>

definition february31W :: trigger where
  "february31W =
     \<lparr>cron = ''0 0 0 31W 2 ?'', sec = plainRange ''sec'' 0 0, min' = plainRange ''min'' 0 0,
      hour = plainRange ''hour'' 0 0,
      day = (newField ''day'')\<lparr>calculate := Some (DayNearWork 31)\<rparr>,
      mon = plainRange ''mon'' 2 2, week = plainRange [] 0 6\<rparr>"

text \<open>The trigger of \<^verbatim>\<open>0 0 0 15 * ?\<close>\<close>

definition day15Midnight :: trigger where
  "day15Midnight =
     \<lparr>cron = ''0 0 0 15 * ?'', sec = plainRange ''sec'' 0 0, min' = plainRange ''min'' 0 0,
      hour = plainRange ''hour'' 0 0, day = plainRange ''day'' 15 15,
      mon = plainRange ''mon'' 1 12, week = plainRange [] 0 6\<rparr>"

definition atTime :: "int \<Rightarrow> nat \<Rightarrow> nat \<Rightarrow> nat \<Rightarrow> nat \<Rightarrow> nat \<Rightarrow> time" where
  "atTime y m d h mi s =
     \<lparr>Year = y, Month = m, Day = d, Hour = h, Minute = mi, Second = s, Nanosecond = 0\<rparr>"


definition newYear2025 :: time where
  "newYear2025 = \<lparr>Year = 2025, Month = 1, Day = 1, Hour = 0, Minute = 0, Second = 0,
                   Nanosecond = 0\<rparr>"

text \<open>The scheduler after \<^verbatim>\<open>AddJob("* * * * * ?", f)\<close> on a new one at that instant.\<close>

definition oneJob :: "unit Scheduler" where
  "oneJob =
     \<lparr>c_heap = [\<lparr>j_id = 1, j_t = everySecond, j_fun = (), j_nextTime = Some newYear2025,
                  j_running = False\<rparr>],
      c_jobMap = [1 \<mapsto> 0], c_jobs = [0], c_id = 1, c_running = False, c_runState = False,
      c_stop = \<lparr>closed = False, buffered = 0\<rparr>, c_jobChan = \<lparr>closed = False, buffered = 0\<rparr>\<rparr>"





text \<open>A scheduler whose counter has wrapped to 0 while the job with id 1 is in it.\<close>

definition wrappedCounter :: "unit Scheduler" where
  "wrappedCounter = oneJob\<lparr>c_id := 0\<rparr>"

section \<open>Properties of the calendar\<close>

lemma div_pred_dvd: "0 < k \<Longrightarrow> (y::int) mod k = 0 \<Longrightarrow> (y - 1) div k = y div k - 1"
proof -
  assume k: "0 < k" and m: "y mod k = 0"
  have "y - 1 = k * (y div k - 1) + (k - 1)"
    using mult_div_mod_eq[of k y] m by (simp add: algebra_simps)
  then show ?thesis using k
    by (intro int_div_pos_eq[of "y - 1" k "y div k - 1" "k - 1"]) auto
qed

lemma div_pred_not_dvd: "0 < k \<Longrightarrow> (y::int) mod k \<noteq> 0 \<Longrightarrow> (y - 1) div k = y div k"
proof -
  assume k: "0 < k" and m: "y mod k \<noteq> 0"
  have "0 \<le> y mod k" using k by simp
  with m have p: "0 < y mod k" by simp
  have l: "y mod k < k" using k by simp
  have "y - 1 = k * (y div k) + (y mod k - 1)"
    using mult_div_mod_eq[of k y] by (simp add: algebra_simps)
  then show ?thesis using p l
    by (intro int_div_pos_eq[of "y - 1" k "y div k" "y mod k - 1"]) auto
qed

lemma mod_400_100: "(y::int) mod 400 = 0 \<Longrightarrow> y mod 100 = 0" by auto
lemma mod_100_4: "(y::int) mod 100 = 0 \<Longrightarrow> y mod 4 = 0" by auto

lemma leap_days:
  "y div 4 - y div 100 + y div 400
     = (y - 1) div 4 - (y - 1) div 100 + (y - 1) div 400 + (if isLeap y then 1 else 0)"
proof -
  have a: "(y - 1) div 4 = y div 4 - (if y mod 4 = 0 then 1 else 0)"
    using div_pred_dvd[of 4 y] div_pred_not_dvd[of 4 y] by simp
  have b: "(y - 1) div 100 = y div 100 - (if y mod 100 = 0 then 1 else 0)"
    using div_pred_dvd[of 100 y] div_pred_not_dvd[of 100 y] by simp
  have c: "(y - 1) div 400 = y div 400 - (if y mod 400 = 0 then 1 else 0)"
    using div_pred_dvd[of 400 y] div_pred_not_dvd[of 400 y] by simp
  show ?thesis
    unfolding a b c isLeap_def using mod_400_100[of y] mod_100_4[of y] by auto
qed

lemma month_cases:
  "1 \<le> (m::nat) \<Longrightarrow> m \<le> 12 \<Longrightarrow>
   m = 1 \<or> m = 2 \<or> m = 3 \<or> m = 4 \<or> m = 5 \<or> m = 6 \<or> m = 7 \<or> m = 8 \<or> m = 9 \<or> m = 10
     \<or> m = 11 \<or> m = 12"
  by arith

lemma monthBase:
  assumes "1 \<le> m" "m < 12"
  shows "daysBefore (m + 1) + (if isLeap y \<and> 2 < m + 1 then 1 else 0)
         = daysBefore m + (if isLeap y \<and> 2 < m then 1 else 0) + int (daysIn y m)"
proof -
  have "m = 1 \<or> m = 2 \<or> m = 3 \<or> m = 4 \<or> m = 5 \<or> m = 6 \<or> m = 7 \<or> m = 8 \<or> m = 9 \<or> m = 10
     \<or> m = 11" using assms by arith
  then show ?thesis
    by (elim disjE) (simp_all add: daysBefore_def daysIn_def)
qed

lemma yearBase:
  "365 * y + y div 4 - y div 100 + y div 400
   = 365 * (y - 1) + (y - 1) div 4 - (y - 1) div 100 + (y - 1) div 400
       + 334 + (if isLeap y then 1 else 0) + 31"
  using leap_days[of y] by simp

lemma dayNumber_next_month:
  assumes "1 \<le> m" "m \<le> 12"
  shows "dayNumber (if 12 \<le> m then y + 1 else y) (if 12 \<le> m then 1 else m + 1)
           (d - int (daysIn y m)) = dayNumber y m d"
proof (cases "m = 12")
  case True
  then show ?thesis
    using yearBase[of y] by (simp add: dayNumber_def daysBefore_def daysIn_def)
next
  case False
  with assms have "m < 12" by simp
  from monthBase[OF assms(1) this, of y] \<open>m < 12\<close> show ?thesis
    by (simp add: dayNumber_def)
qed

lemma dayNumber_prev_month:
  assumes "1 \<le> m" "m \<le> 12"
  shows "dayNumber (if m \<le> 1 then y - 1 else y) (if m \<le> 1 then 12 else m - 1)
           (d + int (daysIn (if m \<le> 1 then y - 1 else y) (if m \<le> 1 then 12 else m - 1)))
         = dayNumber y m d"
proof (cases "m = 1")
  case True
  then show ?thesis
    using yearBase[of "y - 1"] by (simp add: dayNumber_def daysBefore_def daysIn_def)
next
  case False
  with assms have m: "1 \<le> m - 1" "m - 1 < 12" by simp_all
  from monthBase[OF m, of y] False assms show ?thesis
    by (simp add: dayNumber_def)
qed

lemma daysIn_bounds: "28 \<le> daysIn y m \<and> daysIn y m \<le> 31"
  by (simp add: daysIn_def)

lemma normDay_sound:
  "1 \<le> m \<Longrightarrow> m \<le> 12 \<Longrightarrow> normDay y m d = (y', m', d') \<Longrightarrow>
   dayNumber y' m' (int d') = dayNumber y m d \<and> 1 \<le> m' \<and> m' \<le> 12 \<and> 1 \<le> d'
     \<and> d' \<le> daysIn y' m'"
proof (induction y m d rule: normDay.induct)
  case (1 y m d)
  show ?case
  proof (cases "d < 1")
    case True
    let ?y = "if m \<le> 1 then y - 1 else y" and ?m = "if m \<le> 1 then 12 else m - 1"
    have eq: "normDay ?y ?m (d + int (daysIn ?y ?m)) = (y', m', d')"
      using "1.prems"(3) True by (subst (asm) normDay.simps) simp
    have "1 \<le> ?m" "?m \<le> 12" using "1.prems"(1,2) by auto
    from "1.IH"(1)[OF True this eq] dayNumber_prev_month[OF "1.prems"(1,2), of y d]
    show ?thesis by simp
  next
    case False
    show ?thesis
    proof (cases "int (daysIn y m) < d")
      case True
      let ?y = "if 12 \<le> m then y + 1 else y" and ?m = "if 12 \<le> m then 1 else m + 1"
      have eq: "normDay ?y ?m (d - int (daysIn y m)) = (y', m', d')"
        using "1.prems"(3) True False by (subst (asm) normDay.simps) simp
      have "1 \<le> ?m" "?m \<le> 12" using "1.prems"(1,2) by auto
      from "1.IH"(2)[OF False True this eq] dayNumber_next_month[OF "1.prems"(1,2), of y d]
      show ?thesis by simp
    next
      case F2: False
      have "normDay y m d = (y, m, nat d)"
        using False F2 by (subst normDay.simps) simp
      with "1.prems" False F2 show ?thesis by auto
    qed
  qed
qed

section \<open>Evaluation\<close>

text \<open>The equations that compute the model on a concrete input.\<close>

lemmas time_eval = Date_def normYear_def normMonth_def normDay.simps daysIn_def isLeap_def dayNumber_def daysBefore_def Weekday_def
  Add_def AddDate_def Second_ns_def Minute_ns_def Hour_ns_def instant_def Before_def After_def Equal_def zeroTime_def
lemmas next_eval = getRangeNextValue_def getRangeNextValue_loop.simps getIncreaseNextValue_def getRangeDayNextValue_def getRangeDayNextValue_loop.simps
  getYearMonthDays_def getLatestWorkDay_def getLatestWorkDay_loop.simps getMonthLatestWeek_def getMonthLatestWeek_loop.simps
  getMonthAfterLatestWeek_def getMonthAfterLatestWeek_loop.simps getMonthWeekByWeekNumDay_def getMonthWeekByWeekNumDay_loop.simps
  setDayField_def setWeekField_def fieldNextValue_def nextClock_def nextPlainDay_def nextStep_def trigger_next.simps maxDeep_def
  Let_def
lemmas parse_eval = Split.simps IndexByte_def at_def digitOf_def ParseUint_def ranges_def monsAlias_def weekAlias_def checkAlias_def parseOrAlias_def
  parserRangeField_def parserIncreaseField_def parserIncreaseField_loop.simps parserEnumField_def parserClockField_def parserDayField_def
  parserMonField_def parserWeekField_def andThen_def parse_def newTrigger_def newField_def
  secField_def minField_def hourField_def dayField_def monField_def weekField_def Let_def


section \<open>The scheduler keeps its map and its slice together\<close>

lemma mapMatchesSlice_New: "mapMatchesSlice New"
  by (simp add: mapMatchesSlice_def New_def)

lemma mapMatchesSliceD:
  "mapMatchesSlice c \<Longrightarrow>
   (c_jobMap c i = Some a) = (a \<in> set (c_jobs c) \<and> j_id (c_heap c ! a) = i)"
  by (simp add: mapMatchesSlice_def)

lemma mapMatchesSliceI:
  assumes "distinct (c_jobs c)" and "\<And>a. a \<in> set (c_jobs c) \<Longrightarrow> a < length (c_heap c)"
    and "\<And>i a. (c_jobMap c i = Some a) = (a \<in> set (c_jobs c) \<and> j_id (c_heap c ! a) = i)"
  shows "mapMatchesSlice c"
  unfolding mapMatchesSlice_def using assms by blast

lemma AddJob_run_leaves:
  assumes "newJob cronExpression f now = Some (Inr j0)"
  shows "c_heap (leaves (AddJob_run c cronExpression f now))
           = c_heap c @ [j0\<lparr>j_id := (c_id c + 1) mod 2 ^ 64\<rparr>]"
    and "c_jobs (leaves (AddJob_run c cronExpression f now)) = c_jobs c @ [length (c_heap c)]"
    and "c_jobMap (leaves (AddJob_run c cronExpression f now))
           = (c_jobMap c)((c_id c + 1) mod 2 ^ 64 \<mapsto> length (c_heap c))"
    and "c_id (leaves (AddJob_run c cronExpression f now)) = (c_id c + 1) mod 2 ^ 64"
  using assms by (auto simp: AddJob_run_def Let_def split: sending.splits)












lemma parse_everySecond: "parse ''* * * * * ?'' = Some (Inr everySecond)"
  by (simp add: parse_eval everySecond_def plainRange_def)

lemma next_everySecond: "trigger_next everySecond newYear2025 [] = Some (newYear2025, everySecond)"
  by (simp add: next_eval time_eval everySecond_def plainRange_def newYear2025_def)

lemma newJob_everySecond:
  "newJob ''* * * * * ?'' () newYear2025
   = Some (Inr \<lparr>j_id = 0, j_t = everySecond, j_fun = (), j_nextTime = Some newYear2025,
                j_running = False\<rparr>)"
  by (simp add: newJob_def newTrigger_def parse_everySecond next_everySecond)






text \<open>
  After the counter has wrapped, \<^verbatim>\<open>AddJob\<close> gives the id of a job that is still there:
  the map then sends the id to the new job, and the slice holds both.
\<close>

lemma AddJob_after_wrap:
  "mapMatchesSlice wrappedCounter \<and> \<not> nextIdFresh wrappedCounter
   \<and> c_jobMap (leaves (AddJob_run wrappedCounter ''* * * * * ?'' () newYear2025)) = [1 \<mapsto> 1]
   \<and> c_jobs (leaves (AddJob_run wrappedCounter ''* * * * * ?'' () newYear2025)) = [0, 1]
   \<and> \<not> mapMatchesSlice (leaves (AddJob_run wrappedCounter ''* * * * * ?'' () newYear2025))"
proof -
  have m: "mapMatchesSlice wrappedCounter"
  proof (rule mapMatchesSliceI)
    fix i a
    show "(c_jobMap wrappedCounter i = Some a)
          = (a \<in> set (c_jobs wrappedCounter) \<and> j_id (c_heap wrappedCounter ! a) = i)"
      by (cases "a = 0") (auto simp: wrappedCounter_def oneJob_def)
  qed (simp_all add: wrappedCounter_def oneJob_def)
  have f: "\<not> nextIdFresh wrappedCounter"
    by (simp add: nextIdFresh_def wrappedCounter_def oneJob_def)
  note L = AddJob_run_leaves[OF newJob_everySecond, of wrappedCounter]
  have jm: "c_jobMap (leaves (AddJob_run wrappedCounter ''* * * * * ?'' () newYear2025))
            = [1 \<mapsto> 1]"
    unfolding L by (simp add: wrappedCounter_def oneJob_def)
  have js: "c_jobs (leaves (AddJob_run wrappedCounter ''* * * * * ?'' () newYear2025)) = [0, 1]"
    unfolding L by (simp add: wrappedCounter_def oneJob_def)
  have hp: "j_id (c_heap (leaves (AddJob_run wrappedCounter ''* * * * * ?'' () newYear2025)) ! 0)
            = 1"
    unfolding L by (simp add: wrappedCounter_def oneJob_def)
  have "\<not> mapMatchesSlice (leaves (AddJob_run wrappedCounter ''* * * * * ?'' () newYear2025))"
  proof
    assume "mapMatchesSlice (leaves (AddJob_run wrappedCounter ''* * * * * ?'' () newYear2025))"
    from mapMatchesSliceD[OF this, of 1 0] js hp jm show False by simp
  qed
  with m f jm js show ?thesis by blast
qed

text \<open>
  Claim C6. When \<^verbatim>\<open>AddJob\<close> returns an error that is not nil, the id it returns is 0
  and the scheduler is the one it was called on: the job map, the job slice and the id
  counter are as before, so no job is registered.
\<close>

theorem AddJob_error_leaves_scheduler:
  "AddJob c cronExpression f now = Some ((i, Some err), c') \<Longrightarrow>
   i = 0 \<and> c' = c \<and> c_jobMap c' = c_jobMap c \<and> c_jobs c' = c_jobs c \<and> c_id c' = c_id c"
  by (auto simp: AddJob_def AddJob_run_def Let_def
      split: option.splits sum.splits if_splits sending.splits)

lemma AddJob_oneJob_error:
  "AddJob oneJob ''0 0 0 1 * 1'' () newYear2025 = Some ((0, Some DayMustBeWildcard), oneJob)"
  by (simp add: AddJob_def AddJob_run_def newJob_def parse_eval)

theorem AddJob_error_leaves_scheduler_witness:
  "AddJob oneJob ''0 0 0 1 * 1'' () newYear2025 = Some ((0, Some DayMustBeWildcard), oneJob)
   \<and> c_jobMap oneJob = [1 \<mapsto> 0] \<and> c_jobs oneJob = [0] \<and> c_id oneJob = 1"
  using AddJob_error_leaves_scheduler[OF AddJob_oneJob_error] AddJob_oneJob_error
  by (simp add: oneJob_def)






section \<open>The parser returns, and what it returns is well formed\<close>

lemma IndexByte_from_notin: "c \<notin> set s \<Longrightarrow> IndexByte_from i s c = - 1"
  by (induction s arbitrary: i) auto

lemma IndexByte_from_in: "c \<in> set s \<Longrightarrow> int i \<le> IndexByte_from i s c"
proof (induction s arbitrary: i)
  case Nil
  then show ?case by simp
next
  case (Cons x xs)
  show ?case
  proof (cases "x = c")
    case True
    then show ?thesis by simp
  next
    case False
    with Cons.prems have "c \<in> set xs" by simp
    from Cons.IH[OF this, of "i + 1"] False show ?thesis by simp
  qed
qed

lemma IndexByte_found: "(- 1 < IndexByte s c) = (c \<in> set s)"
proof (cases "c \<in> set s")
  case True
  from IndexByte_from_in[OF this, of 0] True show ?thesis by (simp add: IndexByte_def)
next
  case False
  from IndexByte_from_notin[OF this, of 0] False show ?thesis by (simp add: IndexByte_def)
qed

lemma Split_not_Nil: "Split s c \<noteq> []"
  by (induction s) (auto split: list.splits)

lemma Split_two: "c \<in> set s \<Longrightarrow> 2 \<le> length (Split s c)"
proof (induction s)
  case Nil
  then show ?case by simp
next
  case (Cons x xs)
  show ?case
  proof (cases "x = c")
    case True
    then show ?thesis using Split_not_Nil[of xs c] by (cases "Split xs c") auto
  next
    case False
    with Cons show ?thesis by (auto split: list.splits)
  qed
qed

lemma at_Some: "i < length xs \<Longrightarrow> at xs i = Some (xs ! i)"
  by (simp add: at_def)

lemma increase_loop_returns:
  "0 < inc \<Longrightarrow>
   \<exists>ws. parserIncreaseField_loop i e inc vs = Some (vs @ ws)
        \<and> list_all (\<lambda>v. i \<le> v \<and> v \<le> e) ws \<and> (i \<le> e \<longrightarrow> ws \<noteq> [])"
proof (induction "e + 1 - i" arbitrary: i vs rule: less_induct)
  case less
  show ?case
  proof (cases "i \<le> e")
    case True
    have "e + 1 - (i + inc) < e + 1 - i" using True less.prems by simp
    from less.hyps[OF this less.prems, of "vs @ [i]"] obtain ws where
      ws: "parserIncreaseField_loop (i + inc) e inc (vs @ [i]) = Some ((vs @ [i]) @ ws)"
          "list_all (\<lambda>v. i + inc \<le> v \<and> v \<le> e) ws" by blast
    have "parserIncreaseField_loop i e inc vs = Some (vs @ (i # ws))"
      using True ws(1) by (subst parserIncreaseField_loop.simps) simp
    moreover have "list_all (\<lambda>v. i \<le> v \<and> v \<le> e) (i # ws)"
      using ws(2) True by (auto simp: list_all_iff)
    ultimately show ?thesis by blast
  next
    case False
    then have "parserIncreaseField_loop i e inc vs = Some (vs @ [])"
      by (subst parserIncreaseField_loop.simps) simp
    with False show ?thesis by force
  qed
qed

lemma ranges_names:
  "ranges secField = Some (0, 59)" "ranges minField = Some (0, 59)"
  "ranges hourField = Some (0, 23)" "ranges dayField = Some (1, 31)"
  "ranges monField = Some (1, 12)" "ranges weekField = Some (0, 6)"
  by (simp_all add: ranges_def secField_def minField_def hourField_def dayField_def
        monField_def weekField_def)

text \<open>What a field parser returns for a field whose name is a key of \<open>ranges\<close>.\<close>

lemma parserRangeField_result:
  assumes "ranges (name f) = Some (mn, mx)" "2 \<le> length arr"
  shows "\<exists>r. parserRangeField str arr f = Some r
           \<and> (\<forall>f'. r = Inr f' \<longrightarrow>
                 isRange f' \<and> mn \<le> start f' \<and> start f' \<le> mx \<and> end' f' \<le> mx
                 \<and> calculate f' = calculate f)"
  using assms
  by (auto simp: parserRangeField_def at_def split: sum.splits)

lemma parserIncreaseField_result:
  assumes "ranges (name f) = Some (mn, mx)" "2 \<le> length arr" "values' f = []"
  shows "\<exists>r. parserIncreaseField str arr f = Some r
           \<and> (\<forall>f'. r = Inr f' \<longrightarrow>
                 \<not> isRange f' \<and> values' f' \<noteq> []
                 \<and> list_all (\<lambda>v. mn \<le> v \<and> v \<le> mx) (values' f')
                 \<and> calculate f' = calculate f)"
proof -
  have a: "at arr 0 = Some (arr ! 0)" "at arr 1 = Some (arr ! 1)"
    using assms(2) by (auto simp: at_def)
  have loop: "\<exists>ws. parserIncreaseField_loop s0 mx inc [] = Some ws
        \<and> list_all (\<lambda>v. mn \<le> v \<and> v \<le> mx) ws \<and> ws \<noteq> []"
    if p: "0 < inc" "mn \<le> s0" "s0 \<le> mx" for s0 inc
  proof -
    from increase_loop_returns[OF p(1), of s0 mx "[]"] obtain ws where
      "parserIncreaseField_loop s0 mx inc [] = Some ws" "list_all (\<lambda>v. s0 \<le> v \<and> v \<le> mx) ws"
      "ws \<noteq> []" using p(3) by auto
    then show ?thesis using p(2) by (auto simp: list_all_iff)
  qed
  show ?thesis
    unfolding parserIncreaseField_def assms(1) a assms(3)
    by (auto split: sum.splits prod.splits option.splits if_splits dest: loop
        simp: not_less)
qed

lemma enum_loop_result:
  "parserEnumField_loop str arr f mn mx vs = Inr ws \<Longrightarrow>
   list_all (\<lambda>v. mn \<le> v \<and> v \<le> mx) vs \<Longrightarrow>
   list_all (\<lambda>v. mn \<le> v \<and> v \<le> mx) ws \<and> length ws = length vs + length arr"
proof (induction arr arbitrary: vs)
  case Nil
  then show ?case by simp
next
  case (Cons a as)
  from Cons.prems(1) obtain n where n: "parseOrAlias str a f = Inr n" "\<not> (n < mn \<or> mx < n)"
    "parserEnumField_loop str as f mn mx (vs @ [n]) = Inr ws"
    by (auto split: sum.splits if_splits)
  have "list_all (\<lambda>v. mn \<le> v \<and> v \<le> mx) (vs @ [n])"
    using Cons.prems(2) n(2) by (simp add: not_less)
  from Cons.IH[OF n(3) this] show ?case by simp
qed

lemma parserEnumField_result:
  assumes "ranges (name f) = Some (mn, mx)" "arr \<noteq> []"
  shows "\<exists>r. parserEnumField str arr f = Some r
           \<and> (\<forall>f'. r = Inr f' \<longrightarrow>
                 \<not> isRange f' \<and> values' f' \<noteq> []
                 \<and> list_all (\<lambda>v. mn \<le> v \<and> v \<le> mx) (values' f')
                 \<and> calculate f' = calculate f)"
proof (cases "parserEnumField_loop str arr f mn mx []")
  case (Inl err)
  then show ?thesis by (simp add: parserEnumField_def assms(1))
next
  case (Inr ws)
  from enum_loop_result[OF Inr] assms(2) have
    "list_all (\<lambda>v. mn \<le> v \<and> v \<le> mx) ws" "ws \<noteq> []" by auto
  have "sort ws \<noteq> []"
  proof
    assume "sort ws = []"
    then have "length (sort ws) = 0" by simp
    with \<open>ws \<noteq> []\<close> show False by simp
  qed
  moreover have "list_all (\<lambda>v. mn \<le> v \<and> v \<le> mx) (sort ws)"
    using \<open>list_all (\<lambda>v. mn \<le> v \<and> v \<le> mx) ws\<close> by (simp add: list_all_iff)
  ultimately show ?thesis using Inr by (simp add: parserEnumField_def assms(1))
qed

lemma newField_simps:
  "name (newField n) = n" "values' (newField n) = []" "calculate (newField n) = None"
  by (simp_all add: newField_def)

lemma fieldWithin_plain: "fieldWithin f lo hi \<Longrightarrow> plainField f"
  by (auto simp: fieldWithin_def plainField_def split: if_splits)

lemma result_weaken:
  "\<exists>r. x = Some r \<and> (\<forall>f'. r = Inr f' \<longrightarrow> P f') \<Longrightarrow> (\<And>f'. P f' \<Longrightarrow> Q f') \<Longrightarrow>
   \<exists>r. x = Some r \<and> (\<forall>f'. r = Inr f' \<longrightarrow> Q f')"
  by blast

text \<open>The three list forms, as every field parser tries them in turn.\<close>

lemma list_forms_result:
  assumes r: "ranges n = Some (mn, mx)"
  shows "c \<in> set s \<Longrightarrow> \<exists>r. parserRangeField s (Split s c) (newField n) = Some r
           \<and> (\<forall>f'. r = Inr f' \<longrightarrow> fieldWithin f' mn mx \<and> calculate f' = None)"
    and "c \<in> set s \<Longrightarrow> \<exists>r. parserIncreaseField s (Split s c) (newField n) = Some r
           \<and> (\<forall>f'. r = Inr f' \<longrightarrow> fieldWithin f' mn mx \<and> calculate f' = None)"
    and "\<exists>r. parserEnumField s (Split s c) (newField n) = Some r
           \<and> (\<forall>f'. r = Inr f' \<longrightarrow> fieldWithin f' mn mx \<and> calculate f' = None)"
proof -
  have r': "ranges (name (newField n)) = Some (mn, mx)" using r by (simp add: newField_simps)
  show "\<exists>r. parserRangeField s (Split s c) (newField n) = Some r
           \<and> (\<forall>f'. r = Inr f' \<longrightarrow> fieldWithin f' mn mx \<and> calculate f' = None)"
    if "c \<in> set s"
    by (rule result_weaken[OF parserRangeField_result[OF r' Split_two[OF that]]])
       (simp add: fieldWithin_def newField_simps)
  show "\<exists>r. parserIncreaseField s (Split s c) (newField n) = Some r
           \<and> (\<forall>f'. r = Inr f' \<longrightarrow> fieldWithin f' mn mx \<and> calculate f' = None)"
    if "c \<in> set s"
    by (rule result_weaken[OF parserIncreaseField_result[OF r' Split_two[OF that]
          newField_simps(2)]])
       (simp add: fieldWithin_def newField_simps)
  show "\<exists>r. parserEnumField s (Split s c) (newField n) = Some r
           \<and> (\<forall>f'. r = Inr f' \<longrightarrow> fieldWithin f' mn mx \<and> calculate f' = None)"
    by (rule result_weaken[OF parserEnumField_result[OF r' Split_not_Nil]])
       (simp add: fieldWithin_def newField_simps)
qed

lemma parserClockField_result:
  assumes r: "ranges unit = Some (mn, mx)"
  shows "\<exists>r. parserClockField unit str = Some r \<and> (\<forall>f'. r = Inr f' \<longrightarrow> plainField f')"
proof -
  note lf = list_forms_result[OF r, where s = str]
  have w: "\<And>f'. fieldWithin f' mn mx \<and> calculate f' = None \<Longrightarrow> plainField f'"
    by (blast intro: fieldWithin_plain)
  consider (star) "str = ''*''"
    | (range) "str \<noteq> ''*''" "CHR ''-'' \<in> set str"
    | (incr) "str \<noteq> ''*''" "CHR ''-'' \<notin> set str" "CHR ''/'' \<in> set str"
    | (enum) "str \<noteq> ''*''" "CHR ''-'' \<notin> set str" "CHR ''/'' \<notin> set str" "CHR '','' \<in> set str"
    | (plain) "str \<noteq> ''*''" "CHR ''-'' \<notin> set str" "CHR ''/'' \<notin> set str" "CHR '','' \<notin> set str"
    by blast
  then show ?thesis
  proof cases
    case star
    then show ?thesis
      by (simp add: parserClockField_def newField_simps r plainField_def)
  next
    case range
    have "parserClockField unit str = parserRangeField str (Split str (CHR ''-'')) (newField unit)"
      using range by (simp add: parserClockField_def IndexByte_found)
    then show ?thesis
      using result_weaken[OF lf(1)[OF range(2)] w] by simp
  next
    case incr
    have "parserClockField unit str = parserIncreaseField str (Split str (CHR ''/'')) (newField unit)"
      using incr by (simp add: parserClockField_def IndexByte_found)
    then show ?thesis
      using result_weaken[OF lf(2)[OF incr(3)] w] by simp
  next
    case enum
    have "parserClockField unit str = parserEnumField str (Split str (CHR '','')) (newField unit)"
      using enum by (simp add: parserClockField_def IndexByte_found)
    then show ?thesis
      using result_weaken[OF lf(3)[where c = "CHR '',''"] w] by simp
  next
    case plain
    then show ?thesis
      by (auto simp: parserClockField_def IndexByte_found plainField_def split: prod.splits option.splits)
  qed
qed

lemma parserDayField_result:
  "\<exists>r. parserDayField s = Some r
      \<and> (\<forall>f'. r = Inr f' \<longrightarrow> (\<forall>c. calculate f' = Some c \<longrightarrow> wf_calc c))"
proof -
  note lf = list_forms_result[OF ranges_names(4), where s = s]
  have w: "\<And>f'. fieldWithin f' 1 31 \<and> calculate f' = None \<Longrightarrow>
             (\<forall>c. calculate f' = Some c \<longrightarrow> wf_calc c)" by simp
  consider (star) "s = ''*'' \<or> s = ''?''"
    | (range) "\<not> (s = ''*'' \<or> s = ''?'')" "CHR ''-'' \<in> set s"
    | (incr) "\<not> (s = ''*'' \<or> s = ''?'')" "CHR ''-'' \<notin> set s" "CHR ''/'' \<in> set s"
    | (enum) "\<not> (s = ''*'' \<or> s = ''?'')" "CHR ''-'' \<notin> set s" "CHR ''/'' \<notin> set s" "CHR '','' \<in> set s"
    | (other) "\<not> (s = ''*'' \<or> s = ''?'')" "CHR ''-'' \<notin> set s" "CHR ''/'' \<notin> set s" "CHR '','' \<notin> set s"
    by blast
  then show ?thesis
  proof cases
    case star
    then show ?thesis by (auto simp: parserDayField_def newField_def)
  next
    case range
    have "parserDayField s = parserRangeField s (Split s (CHR ''-'')) (newField dayField)"
      using range by (simp add: parserDayField_def IndexByte_found)
    then show ?thesis using result_weaken[OF lf(1)[OF range(2)] w] by simp
  next
    case incr
    have "parserDayField s = parserIncreaseField s (Split s (CHR ''/'')) (newField dayField)"
      using incr by (simp add: parserDayField_def IndexByte_found)
    then show ?thesis using result_weaken[OF lf(2)[OF incr(3)] w] by simp
  next
    case enum
    have "parserDayField s = parserEnumField s (Split s (CHR '','')) (newField dayField)"
      using enum by (simp add: parserDayField_def IndexByte_found)
    then show ?thesis using result_weaken[OF lf(3)[where c = "CHR '',''"] w] by simp
  next
    case other
    then show ?thesis
      by (auto simp: parserDayField_def IndexByte_found newField_def Let_def split: prod.splits)
  qed
qed

lemma monsAlias_range: "monsAlias s = Some a \<Longrightarrow> 1 \<le> a \<and> a \<le> 12"
  by (auto simp: monsAlias_def split: if_splits)

lemma weekAlias_range: "weekAlias s = Some a \<Longrightarrow> a \<le> 6"
  by (auto simp: weekAlias_def split: if_splits)

lemma parserMonField_result:
  "\<exists>r. parserMonField s = Some r
      \<and> (\<forall>f'. r = Inr f' \<longrightarrow> fieldWithin f' 1 12 \<and> calculate f' = None)"
proof -
  note lf = list_forms_result[OF ranges_names(5), where s = s]
  consider (star) "s = ''*''"
    | (range) "s \<noteq> ''*''" "CHR ''-'' \<in> set s"
    | (incr) "s \<noteq> ''*''" "CHR ''-'' \<notin> set s" "CHR ''/'' \<in> set s"
    | (enum) "s \<noteq> ''*''" "CHR ''-'' \<notin> set s" "CHR ''/'' \<notin> set s" "CHR '','' \<in> set s"
    | (plain) "s \<noteq> ''*''" "CHR ''-'' \<notin> set s" "CHR ''/'' \<notin> set s" "CHR '','' \<notin> set s"
    by blast
  then show ?thesis
  proof cases
    case star
    then show ?thesis by (simp add: parserMonField_def newField_def fieldWithin_def)
  next
    case range
    have "parserMonField s = parserRangeField s (Split s (CHR ''-'')) (newField monField)"
      using range by (simp add: parserMonField_def IndexByte_found)
    then show ?thesis using lf(1)[OF range(2)] by simp
  next
    case incr
    have "parserMonField s = parserIncreaseField s (Split s (CHR ''/'')) (newField monField)"
      using incr by (simp add: parserMonField_def IndexByte_found)
    then show ?thesis using lf(2)[OF incr(3)] by simp
  next
    case enum
    have "parserMonField s = parserEnumField s (Split s (CHR '','')) (newField monField)"
      using enum by (simp add: parserMonField_def IndexByte_found)
    then show ?thesis using lf(3)[where c = "CHR '',''"] by simp
  next
    case plain
    then show ?thesis
      by (auto simp: parserMonField_def IndexByte_found newField_def fieldWithin_def Let_def
          split: prod.splits option.splits dest: monsAlias_range)
  qed
qed

lemma parserWeekField_wildcard:
  "s = ''*'' \<or> s = ''?'' \<Longrightarrow>
   parserWeekField cronExpression s = Some (Inr ((newField [])\<lparr>isRange := True, start := 0, end' := 6\<rparr>))"
  by (auto simp: parserWeekField_def)

lemma parserWeekField_exclusive:
  assumes "length (Split cronExpression (CHR '' '')) = 6"
    and "s \<noteq> ''*''" "s \<noteq> ''?''"
    and "Split cronExpression (CHR '' '') ! 3 \<noteq> ''*''"
    and "Split cronExpression (CHR '' '') ! 3 \<noteq> ''?''"
  shows "parserWeekField cronExpression s = Some (Inl DayMustBeWildcard)"
  using assms by (simp add: parserWeekField_def at_def)

lemma parserWeekField_result:
  assumes len: "length (Split cronExpression (CHR '' '')) = 6"
  shows "\<exists>r. parserWeekField cronExpression s = Some r
      \<and> (\<forall>f'. r = Inr f' \<longrightarrow>
            (case calculate f' of Some c \<Rightarrow> wf_calc c | None \<Rightarrow> fieldWithin f' 0 6))"
proof -
  note lf = list_forms_result[OF ranges_names(6), where s = s]
  have w: "\<And>f'. fieldWithin f' 0 6 \<and> calculate f' = None \<Longrightarrow>
             (case calculate f' of Some c \<Rightarrow> wf_calc c | None \<Rightarrow> fieldWithin f' 0 6)"
    by simp
  have at3: "at (Split cronExpression (CHR '' '')) 3 = Some (Split cronExpression (CHR '' '') ! 3)"
    using len by (simp add: at_def)
  let ?a3 = "Split cronExpression (CHR '' '') ! 3"
  consider (star) "s = ''*'' \<or> s = ''?''"
    | (excl) "\<not> (s = ''*'' \<or> s = ''?'')" "?a3 \<noteq> ''*'' \<and> ?a3 \<noteq> ''?''"
    | (range) "\<not> (s = ''*'' \<or> s = ''?'')" "\<not> (?a3 \<noteq> ''*'' \<and> ?a3 \<noteq> ''?'')" "CHR ''-'' \<in> set s"
    | (incr) "\<not> (s = ''*'' \<or> s = ''?'')" "\<not> (?a3 \<noteq> ''*'' \<and> ?a3 \<noteq> ''?'')"
         "CHR ''-'' \<notin> set s" "CHR ''/'' \<in> set s"
    | (enum) "\<not> (s = ''*'' \<or> s = ''?'')" "\<not> (?a3 \<noteq> ''*'' \<and> ?a3 \<noteq> ''?'')"
         "CHR ''-'' \<notin> set s" "CHR ''/'' \<notin> set s" "CHR '','' \<in> set s"
    | (other) "\<not> (s = ''*'' \<or> s = ''?'')" "\<not> (?a3 \<noteq> ''*'' \<and> ?a3 \<noteq> ''?'')"
         "CHR ''-'' \<notin> set s" "CHR ''/'' \<notin> set s" "CHR '','' \<notin> set s"
    by blast
  then show ?thesis
  proof cases
    case star
    then show ?thesis
      by (simp add: parserWeekField_wildcard newField_def fieldWithin_def)
  next
    case excl
    then show ?thesis using parserWeekField_exclusive[OF len, of s] by simp
  next
    case range
    have "parserWeekField cronExpression s
          = parserRangeField s (Split s (CHR ''-'')) (newField weekField)"
      using range by (auto simp: parserWeekField_def IndexByte_found at3 Let_def)
    then show ?thesis using result_weaken[OF lf(1)[OF range(3)] w] by simp
  next
    case incr
    have "parserWeekField cronExpression s
          = parserIncreaseField s (Split s (CHR ''/'')) (newField weekField)"
      using incr by (auto simp: parserWeekField_def IndexByte_found at3 Let_def)
    then show ?thesis using result_weaken[OF lf(2)[OF incr(4)] w] by simp
  next
    case enum
    have "parserWeekField cronExpression s
          = parserEnumField s (Split s (CHR '','')) (newField weekField)"
      using enum by (auto simp: parserWeekField_def IndexByte_found at3 Let_def)
    then show ?thesis using result_weaken[OF lf(3)[where c = "CHR '',''"] w] by simp
  next
    case other
    then show ?thesis
      unfolding parserWeekField_def at3 Let_def
      by (auto simp: IndexByte_found newField_def fieldWithin_def
          split: prod.splits option.splits dest: weekAlias_range)
  qed
qed

lemma parse_result:
  "\<exists>r. parse cronExpression = Some r \<and> (\<forall>t. r = Inr t \<longrightarrow> wf_trigger t)"
proof (cases "length (Split cronExpression (CHR '' '')) = 6")
  case False
  then show ?thesis by (simp add: parse_def)
next
  case True
  let ?arr = "Split cronExpression (CHR '' '')"
  obtain r1 where r1: "parserClockField secField (?arr ! 0) = Some r1"
      "\<forall>f'. r1 = Inr f' \<longrightarrow> plainField f'"
    using parserClockField_result[OF ranges_names(1)] by blast
  obtain r2 where r2: "parserClockField minField (?arr ! 1) = Some r2"
      "\<forall>f'. r2 = Inr f' \<longrightarrow> plainField f'"
    using parserClockField_result[OF ranges_names(2)] by blast
  obtain r3 where r3: "parserClockField hourField (?arr ! 2) = Some r3"
      "\<forall>f'. r3 = Inr f' \<longrightarrow> plainField f'"
    using parserClockField_result[OF ranges_names(3)] by blast
  obtain r4 where r4: "parserDayField (?arr ! 3) = Some r4"
      "\<forall>f'. r4 = Inr f' \<longrightarrow> (\<forall>c. calculate f' = Some c \<longrightarrow> wf_calc c)"
    using parserDayField_result by blast
  obtain r5 where r5: "parserMonField (?arr ! 4) = Some r5"
      "\<forall>f'. r5 = Inr f' \<longrightarrow> fieldWithin f' 1 12 \<and> calculate f' = None"
    using parserMonField_result by blast
  obtain r6 where r6: "parserWeekField cronExpression (?arr ! 5) = Some r6"
      "\<forall>f'. r6 = Inr f' \<longrightarrow>
            (case calculate f' of Some c \<Rightarrow> wf_calc c | None \<Rightarrow> fieldWithin f' 0 6)"
    using parserWeekField_result[OF True] by blast
  show ?thesis
    using True r1 r2 r3 r4 r5 r6
    by (cases r1; cases r2; cases r3; cases r4; cases r5; cases r6)
       (auto simp: parse_def andThen_def wf_trigger_def split: option.splits)
qed

text \<open>
  Claim C5. An expression of six tokens whose day-of-month token is neither \<^verbatim>\<open>*\<close> nor
  \<^verbatim>\<open>?\<close> and whose day-of-week token is neither \<^verbatim>\<open>*\<close> nor \<^verbatim>\<open>?\<close> is refused by \<^verbatim>\<open>parse\<close> with
  an error: no trigger is produced, no job is made, and \<^verbatim>\<open>AddJob\<close> registers nothing.
\<close>

theorem parse_rejects_day_and_week:
  assumes "length (Split cronExpression (CHR '' '')) = 6"
    and "Split cronExpression (CHR '' '') ! 3 \<noteq> ''*''"
    and "Split cronExpression (CHR '' '') ! 3 \<noteq> ''?''"
    and "Split cronExpression (CHR '' '') ! 5 \<noteq> ''*''"
    and "Split cronExpression (CHR '' '') ! 5 \<noteq> ''?''"
  shows "\<exists>err. parse cronExpression = Some (Inl err)
             \<and> newJob cronExpression f now = Some (Inl err)
             \<and> AddJob c cronExpression f now = Some ((0, Some err), c)"
proof -
  let ?arr = "Split cronExpression (CHR '' '')"
  obtain r1 where r1: "parserClockField secField (?arr ! 0) = Some r1"
    using parserClockField_result[OF ranges_names(1)] by blast
  obtain r2 where r2: "parserClockField minField (?arr ! 1) = Some r2"
    using parserClockField_result[OF ranges_names(2)] by blast
  obtain r3 where r3: "parserClockField hourField (?arr ! 2) = Some r3"
    using parserClockField_result[OF ranges_names(3)] by blast
  obtain r4 where r4: "parserDayField (?arr ! 3) = Some r4"
    using parserDayField_result by blast
  obtain r5 where r5: "parserMonField (?arr ! 4) = Some r5"
    using parserMonField_result by blast
  have r6: "parserWeekField cronExpression (?arr ! 5) = Some (Inl DayMustBeWildcard)"
    by (rule parserWeekField_exclusive[OF assms(1) assms(4) assms(5) assms(2) assms(3)])
  have "\<exists>err. parse cronExpression = Some (Inl err)"
    using assms(1) r1 r2 r3 r4 r5 r6
    by (cases r1; cases r2; cases r3; cases r4; cases r5)
       (simp_all add: parse_def andThen_def)
  then show ?thesis
    by (auto simp: newJob_def newTrigger_def AddJob_def AddJob_run_def)
qed

theorem parse_rejects_day_and_week_witness:
  "length (Split ''0 0 0 1 * 1'' (CHR '' '')) = 6
   \<and> Split ''0 0 0 1 * 1'' (CHR '' '') ! 3 = ''1''
   \<and> Split ''0 0 0 1 * 1'' (CHR '' '') ! 5 = ''1''
   \<and> (\<exists>err. parse ''0 0 0 1 * 1'' = Some (Inl err)
         \<and> newJob ''0 0 0 1 * 1'' () zeroTime = Some (Inl err)
         \<and> AddJob (New :: unit Scheduler) ''0 0 0 1 * 1'' () zeroTime = Some ((0, Some err), New))"
proof -
  have a: "Split ''0 0 0 1 * 1'' (CHR '' '') = [''0'', ''0'', ''0'', ''1'', ''*'', ''1'']"
    by simp
  from parse_rejects_day_and_week[of "''0 0 0 1 * 1''" "()" zeroTime New] a
  show ?thesis by simp
qed

section \<open>Dates, instants and weekdays\<close>

lemma dayNumber_add: "dayNumber y m (d + k) = dayNumber y m d + k"
  by (simp add: dayNumber_def)

lemma normMonth_bounds: "1 \<le> normMonth m \<and> normMonth m \<le> 12"
proof -
  have "0 \<le> (m - 1) mod 12" "(m - 1) mod 12 < 12" by simp_all
  then show ?thesis unfolding normMonth_def by linarith
qed

lemma norm_month_id: "1 \<le> m \<Longrightarrow> m \<le> 12 \<Longrightarrow> normYear y (int m) = y \<and> normMonth (int m) = m"
  by (simp add: normYear_def normMonth_def)

text \<open>The clock of a date is carried into the day, and the whole is the same instant.\<close>

lemma clock_carry_lin:
  fixes h mi s ns q1 r1 q2 r2 q3 r3 q4 r4 :: int
  assumes "ns = 1000000000 * q1 + r1" "s + q1 = 60 * q2 + r2" "mi + q2 = 60 * q3 + r3"
    "h + q3 = 24 * q4 + r4"
  shows "(q4 * 86400 + r4 * 3600 + r3 * 60 + r2) * 1000000000 + r1
         = (h * 3600 + mi * 60 + s) * 1000000000 + ns"
proof -
  have e: "ns = 1000000000 * q1 + r1" "s = 60 * q2 + r2 - q1" "mi = 60 * q3 + r3 - q2"
    "h = 24 * q4 + r4 - q3"
    using assms by simp_all
  show ?thesis unfolding e by (simp add: algebra_simps)
qed

lemma clock_carry:
  fixes h mi s ns :: nat
  defines "s1 \<equiv> s + ns div 1000000000"
  defines "m1 \<equiv> mi + s1 div 60"
  defines "h1 \<equiv> h + m1 div 60"
  shows "((int (h1 div 24) * 86400 + int (h1 mod 24) * 3600 + int (m1 mod 60) * 60
            + int (s1 mod 60)) * 1000000000) + int (ns mod 1000000000)
         = ((int h * 3600 + int mi * 60 + int s) * 1000000000) + int ns"
proof -
  have a: "int ns = 1000000000 * int (ns div 1000000000) + int (ns mod 1000000000)"
    by (simp add: zdiv_int zmod_int)
  have b: "int s + int (ns div 1000000000) = 60 * int (s1 div 60) + int (s1 mod 60)"
    unfolding s1_def by (simp add: zdiv_int zmod_int)
  have c: "int mi + int (s1 div 60) = 60 * int (m1 div 60) + int (m1 mod 60)"
    unfolding m1_def by (simp add: zdiv_int zmod_int)
  have d: "int h + int (m1 div 60) = 24 * int (h1 div 24) + int (h1 mod 24)"
    unfolding h1_def by (simp add: zdiv_int zmod_int)
  show ?thesis by (rule clock_carry_lin[OF a b c d])
qed

lemma Date_props:
  "valid_time (Date y mo d h mi s ns)
   \<and> instant (Date y mo d h mi s ns)
       = ((dayNumber (normYear y mo) (normMonth mo) d * 86400
            + int h * 3600 + int mi * 60 + int s) * 1000000000) + int ns
   \<and> dayNumber (Year (Date y mo d h mi s ns)) (Month (Date y mo d h mi s ns))
         (int (Day (Date y mo d h mi s ns)))
       = dayNumber (normYear y mo) (normMonth mo) d
           + int ((h + (mi + (s + ns div 1000000000) div 60) div 60) div 24)"
proof -
  define s1 where "s1 = s + ns div 1000000000"
  define m1 where "m1 = mi + s1 div 60"
  define h1 where "h1 = h + m1 div 60"
  obtain y' m' d' where n: "normDay (normYear y mo) (normMonth mo) (d + int (h1 div 24)) = (y', m', d')"
    by (cases "normDay (normYear y mo) (normMonth mo) (d + int (h1 div 24))") auto
  from normDay_sound[OF _ _ n] normMonth_bounds[of mo]
  have snd: "dayNumber y' m' (int d') = dayNumber (normYear y mo) (normMonth mo) (d + int (h1 div 24))"
    "1 \<le> m'" "m' \<le> 12" "1 \<le> d'" "d' \<le> daysIn y' m'" by auto
  have D: "Date y mo d h mi s ns = \<lparr>Year = y', Month = m', Day = d', Hour = h1 mod 24,
          Minute = m1 mod 60, Second = s1 mod 60, Nanosecond = ns mod 1000000000\<rparr>"
    using n by (simp add: Date_def Let_def s1_def m1_def h1_def)
  have v: "valid_time (Date y mo d h mi s ns)"
    unfolding D valid_time_def using snd by simp
  have i: "instant (Date y mo d h mi s ns)
       = ((dayNumber (normYear y mo) (normMonth mo) d * 86400
            + int h * 3600 + int mi * 60 + int s) * 1000000000) + int ns"
  proof -
    have "instant (Date y mo d h mi s ns)
        = (dayNumber (normYear y mo) (normMonth mo) d * 86400) * 1000000000
          + (((int (h1 div 24) * 86400 + int (h1 mod 24) * 3600 + int (m1 mod 60) * 60
            + int (s1 mod 60)) * 1000000000) + int (ns mod 1000000000))"
      unfolding D instant_def by (simp add: snd(1) dayNumber_add algebra_simps)
    also have "\<dots> = (dayNumber (normYear y mo) (normMonth mo) d * 86400) * 1000000000
          + (((int h * 3600 + int mi * 60 + int s) * 1000000000) + int ns)"
      using clock_carry[of h mi s ns] unfolding h1_def m1_def s1_def by simp
    finally show ?thesis by (simp add: algebra_simps)
  qed
  have dn: "dayNumber (Year (Date y mo d h mi s ns)) (Month (Date y mo d h mi s ns))
         (int (Day (Date y mo d h mi s ns)))
       = dayNumber (normYear y mo) (normMonth mo) d + int (h1 div 24)"
    unfolding D using snd(1) by (simp add: dayNumber_add)
  show ?thesis using v i dn unfolding h1_def m1_def s1_def by blast
qed

lemma Date_valid: "valid_time (Date y mo d h mi s ns)"
  using Date_props by blast

lemma Date_instant:
  "instant (Date y mo d h mi s ns)
     = ((dayNumber (normYear y mo) (normMonth mo) d * 86400
          + int h * 3600 + int mi * 60 + int s) * 1000000000) + int ns"
  using Date_props by blast

lemma Date_midnight_Weekday:
  "Weekday (Date y mo d 0 0 0 0) = nat (dayNumber (normYear y mo) (normMonth mo) d mod 7)"
  using Date_props[of y mo d 0 0 0 0] by (simp add: Weekday_def)

text \<open>A date whose components are in range is read back as it was written.\<close>

lemma Date_in_range:
  assumes "1 \<le> m" "m \<le> 12" "1 \<le> d" "d \<le> daysIn y m" "h < 24" "mi < 60" "s < 60"
    "ns < 1000000000"
  shows "Date y (int m) (int d) h mi s ns
         = \<lparr>Year = y, Month = m, Day = d, Hour = h, Minute = mi, Second = s, Nanosecond = ns\<rparr>"
proof -
  have "normDay y m (int d) = (y, m, d)"
    using assms(3,4) by (subst normDay.simps) simp
  then show ?thesis
    using assms norm_month_id[OF assms(1,2), of y]
    by (simp add: Date_def)
qed

lemma AddDate_days:
  assumes "valid_time t"
  shows "valid_time (AddDate t 0 0 k)"
    and "dayNumber (Year (AddDate t 0 0 k)) (Month (AddDate t 0 0 k)) (int (Day (AddDate t 0 0 k)))
         = dayNumber (Year t) (Month t) (int (Day t)) + k"
    and "Weekday (AddDate t 0 0 k) = nat ((int (Weekday t) + k) mod 7)"
proof -
  have m: "1 \<le> Month t" "Month t \<le> 12" and c: "Hour t < 24" "Minute t < 60" "Second t < 60"
    "Nanosecond t < 1000000000"
    using assms by (auto simp: valid_time_def)
  show "valid_time (AddDate t 0 0 k)" by (simp add: AddDate_def Date_valid)
  have carry: "(Hour t + (Minute t + (Second t + Nanosecond t div 1000000000) div 60) div 60) div 24 = 0"
    using c by simp
  show dn: "dayNumber (Year (AddDate t 0 0 k)) (Month (AddDate t 0 0 k)) (int (Day (AddDate t 0 0 k)))
         = dayNumber (Year t) (Month t) (int (Day t)) + k"
    using Date_props[of "Year t" "int (Month t)" "int (Day t) + k" "Hour t" "Minute t" "Second t"
        "Nanosecond t"] norm_month_id[OF m, of "Year t"] carry
    by (simp add: AddDate_def dayNumber_add)
  show "Weekday (AddDate t 0 0 k) = nat ((int (Weekday t) + k) mod 7)"
    unfolding Weekday_def dn by (simp add: mod_add_left_eq)
qed

lemma Weekday_less: "Weekday t < 7"
  unfolding Weekday_def by (simp add: nat_less_iff)

section \<open>What the field searches return\<close>

lemma getRangeNextValue_loop_eq:
  "getRangeNextValue_loop i e n = (if max i n \<le> e then Some (max i n) else None)"
proof (induction i e n rule: getRangeNextValue_loop.induct)
  case (1 i e n)
  show ?case
  proof (cases "i \<le> e \<and> \<not> n \<le> i")
    case True
    then have "getRangeNextValue_loop i e n = getRangeNextValue_loop (i + 1) e n"
      by (subst getRangeNextValue_loop.simps) simp
    also have "\<dots> = (if max (i + 1) n \<le> e then Some (max (i + 1) n) else None)"
      using "1.IH" True by simp
    finally show ?thesis using True by (simp add: max_def)
  next
    case False
    then show ?thesis
      by (subst getRangeNextValue_loop.simps) (auto simp: max_def)
  qed
qed

lemma getRangeNextValue_eq:
  "getRangeNextValue s e n = (if max s n \<le> e then (max s n, True) else (s, False))"
  by (simp add: getRangeNextValue_def getRangeNextValue_loop_eq)

lemma getIncreaseNextValue_loop_in:
  "getIncreaseNextValue_loop vs n = Some v \<Longrightarrow> v \<in> set vs"
  by (induction vs) (auto split: if_splits)

lemma getIncreaseNextValue_returns:
  "vs \<noteq> [] \<Longrightarrow> \<exists>v b. getIncreaseNextValue vs n = Some (v, b) \<and> v \<in> set vs"
  by (cases vs) (auto simp: getIncreaseNextValue_def split: option.splits
        dest: getIncreaseNextValue_loop_in)

lemma fieldNextValue_plain:
  "plainField f \<Longrightarrow> \<exists>v b. fieldNextValue f n = Some (v, b)"
  using getIncreaseNextValue_returns[of "values' f" n]
  by (auto simp: fieldNextValue_def plainField_def getRangeNextValue_eq)

lemma fieldNextValue_within:
  assumes "fieldWithin f lo hi"
  shows "\<exists>v b. fieldNextValue f n = Some (v, b) \<and> lo \<le> v \<and> v \<le> hi"
proof (cases "isRange f")
  case True
  with assms show ?thesis
    by (auto simp: fieldNextValue_def fieldWithin_def getRangeNextValue_eq max_def)
next
  case False
  with assms have ne: "values' f \<noteq> []" and all: "\<forall>v \<in> set (values' f). lo \<le> v \<and> v \<le> hi"
    by (auto simp: fieldWithin_def list_all_iff)
  from getIncreaseNextValue_returns[OF ne, of n] all False show ?thesis
    by (auto simp: fieldNextValue_def)
qed

text \<open>Stepping a day at a time.\<close>

lemma AddDate_prev_day:
  assumes "valid_time t" "2 \<le> Day t"
  shows "AddDate t 0 0 (- 1) = t\<lparr>Day := Day t - 1\<rparr>"
proof -
  have e: "int (Day t) + - 1 = int (Day t - 1)" using assms(2) by simp
  have "Date (Year t) (int (Month t)) (int (Day t - 1)) (Hour t) (Minute t) (Second t)
          (Nanosecond t)
        = \<lparr>Year = Year t, Month = Month t, Day = Day t - 1, Hour = Hour t, Minute = Minute t,
           Second = Second t, Nanosecond = Nanosecond t\<rparr>"
    using assms by (intro Date_in_range) (auto simp: valid_time_def)
  then show ?thesis unfolding AddDate_def e by simp
qed

lemma AddDate_next_day:
  assumes "valid_time t" "Day t < daysIn (Year t) (Month t)"
  shows "AddDate t 0 0 1 = t\<lparr>Day := Day t + 1\<rparr>"
proof -
  have e: "int (Day t) + 1 = int (Day t + 1)" by simp
  have "Date (Year t) (int (Month t)) (int (Day t + 1)) (Hour t) (Minute t) (Second t)
          (Nanosecond t)
        = \<lparr>Year = Year t, Month = Month t, Day = Day t + 1, Hour = Hour t, Minute = Minute t,
           Second = Second t, Nanosecond = Nanosecond t\<rparr>"
    using assms by (intro Date_in_range) (auto simp: valid_time_def)
  then show ?thesis unfolding AddDate_def e by simp
qed

lemma AddDate_month_end:
  assumes "valid_time t" "Day t = daysIn (Year t) (Month t)"
  shows "Month (AddDate t 0 0 1) = (if Month t = 12 then 1 else Month t + 1)"
proof -
  have m: "1 \<le> Month t" "Month t \<le> 12" and c: "Hour t < 24" "Minute t < 60" "Second t < 60"
    "Nanosecond t < 1000000000"
    using assms by (auto simp: valid_time_def)
  let ?y = "if 12 \<le> Month t then Year t + 1 else Year t"
  let ?m = "if 12 \<le> Month t then 1 else Month t + 1"
  have "normDay (Year t) (Month t) (int (Day t) + 1) = normDay ?y ?m 1"
    using assms(2) by (subst normDay.simps) simp
  also have "\<dots> = (?y, ?m, 1)"
    using daysIn_bounds[of ?y ?m] by (subst normDay.simps) simp
  finally show ?thesis
    using c m norm_month_id[OF m, of "Year t"]
    by (simp add: AddDate_def Date_def)
qed

lemma forward_week_loop_returns:
  assumes "0 \<le> w" "w < 7"
  shows "valid_time t \<Longrightarrow> \<exists>t'. getMonthAfterLatestWeek_loop t w = Some t' \<and> valid_time t'"
proof (induction "nat ((w - int (Weekday t)) mod 7)" arbitrary: t rule: less_induct)
  case less
  show ?case
  proof (cases "int (Weekday t) = w")
    case True
    then show ?thesis
      using less.prems by (subst getMonthAfterLatestWeek_loop.simps) simp
  next
    case False
    let ?t = "AddDate t 0 0 1"
    have v: "valid_time ?t" and wd: "Weekday ?t = nat ((int (Weekday t) + 1) mod 7)"
      using AddDate_days[OF less.prems] by simp_all
    have "nat ((w - int (Weekday ?t)) mod 7) < nat ((w - int (Weekday t)) mod 7)"
      using False assms Weekday_less[of t] unfolding wd by (simp add: nat_less_iff) presburger
    from less.hyps[OF this v] obtain t' where
      "getMonthAfterLatestWeek_loop ?t w = Some t'" "valid_time t'" by blast
    then show ?thesis
      using False by (subst getMonthAfterLatestWeek_loop.simps) simp
  qed
qed

lemma backward_week_loop_returns:
  assumes "0 \<le> w" "w < 7"
  shows "valid_time t \<Longrightarrow> \<exists>t'. getMonthLatestWeek_loop t w = Some t' \<and> valid_time t'
            \<and> int (Weekday t') = w"
proof (induction "nat ((int (Weekday t) - w) mod 7)" arbitrary: t rule: less_induct)
  case less
  show ?case
  proof (cases "int (Weekday t) = w")
    case True
    then show ?thesis
      using less.prems by (subst getMonthLatestWeek_loop.simps) simp
  next
    case False
    let ?t = "AddDate t 0 0 (- 1)"
    have v: "valid_time ?t" and wd: "Weekday ?t = nat ((int (Weekday t) + - 1) mod 7)"
      using AddDate_days[OF less.prems] by simp_all
    have "nat ((int (Weekday ?t) - w) mod 7) < nat ((int (Weekday t) - w) mod 7)"
      using False assms Weekday_less[of t] unfolding wd by (simp add: nat_less_iff) presburger
    from less.hyps[OF this v] obtain t' where
      "getMonthLatestWeek_loop ?t w = Some t'" "valid_time t'" "int (Weekday t') = w" by blast
    then show ?thesis
      using False by (subst getMonthLatestWeek_loop.simps) simp
  qed
qed

section \<open>Every pass of the resolver returns\<close>

lemma work_day_loop_returns:
  assumes v: "valid_time t"
  shows "\<exists>t'. getLatestWorkDay_loop t = Some t' \<and> valid_time t'
           \<and> (3 \<le> Day t \<longrightarrow> Month t' = Month t \<and> Year t' = Year t)"
proof -
  let ?t1 = "AddDate t 0 0 (- 1)"
  let ?t2 = "AddDate ?t1 0 0 (- 1)"
  have v1: "valid_time ?t1" and w1: "Weekday ?t1 = nat ((int (Weekday t) + - 1) mod 7)"
    using AddDate_days[OF v] by simp_all
  have v2: "valid_time ?t2" and w2: "Weekday ?t2 = nat ((int (Weekday ?t1) + - 1) mod 7)"
    using AddDate_days[OF v1] by simp_all
  have m1: "Month ?t1 = Month t \<and> Year ?t1 = Year t \<and> Day ?t1 = Day t - 1" if "3 \<le> Day t"
    using AddDate_prev_day[OF v] that by simp
  have m2: "Month ?t2 = Month t \<and> Year ?t2 = Year t" if "3 \<le> Day t"
    using AddDate_prev_day[OF v1] m1[OF that] that by simp
  consider (work) "Weekday t \<noteq> 0" "Weekday t \<noteq> 6" | (sat) "Weekday t = 6" | (sun) "Weekday t = 0"
    by blast
  then show ?thesis
  proof cases
    case work
    then show ?thesis using v by (subst getLatestWorkDay_loop.simps) simp
  next
    case sat
    then have "Weekday ?t1 = 5" unfolding w1 by simp
    then have "getLatestWorkDay_loop ?t1 = Some ?t1"
      by (subst getLatestWorkDay_loop.simps) simp
    then have "getLatestWorkDay_loop t = Some ?t1"
      using sat by (subst getLatestWorkDay_loop.simps) simp
    then show ?thesis using v1 m1 by auto
  next
    case sun
    then have s1: "Weekday ?t1 = 6" unfolding w1 by simp
    then have "Weekday ?t2 = 5" unfolding w2 by simp
    then have "getLatestWorkDay_loop ?t2 = Some ?t2"
      by (subst getLatestWorkDay_loop.simps) simp
    then have "getLatestWorkDay_loop ?t1 = Some ?t2"
      using s1 by (subst getLatestWorkDay_loop.simps) simp
    then have "getLatestWorkDay_loop t = Some ?t2"
      using sun by (subst getLatestWorkDay_loop.simps) simp
    then show ?thesis using v2 m2 by auto
  qed
qed

lemma nth_week_loop_returns:
  "valid_time t \<Longrightarrow>
   \<exists>r. getMonthWeekByWeekNumDay_loop t k month weekNum weekDay = Some r
      \<and> (\<forall>t'. r = Some t' \<longrightarrow> valid_time t')"
proof (induction "daysIn (Year t) (Month t) - Day t" arbitrary: t k rule: less_induct)
  case less
  let ?t = "AddDate t 0 0 1"
  have v: "valid_time ?t" using AddDate_days[OF less.prems] by simp
  have next_loop: "\<exists>r. getMonthWeekByWeekNumDay_loop ?t k' month weekNum weekDay = Some r
      \<and> (\<forall>t'. r = Some t' \<longrightarrow> valid_time t')" if mt: "int (Month t) = month" for k'
  proof (cases "Day t < daysIn (Year t) (Month t)")
    case True
    have e: "?t = t\<lparr>Day := Day t + 1\<rparr>" by (rule AddDate_next_day[OF less.prems True])
    have "daysIn (Year ?t) (Month ?t) - Day ?t < daysIn (Year t) (Month t) - Day t"
      unfolding e using True by simp
    from less.hyps[OF this v] show ?thesis .
  next
    case False
    with less.prems have "Day t = daysIn (Year t) (Month t)" by (simp add: valid_time_def)
    from AddDate_month_end[OF less.prems this] have "Month ?t \<noteq> Month t"
      using less.prems by (auto simp: valid_time_def)
    with mt have "int (Month ?t) \<noteq> month" by auto
    then show ?thesis by (subst getMonthWeekByWeekNumDay_loop.simps) simp
  qed
  show ?case
  proof (cases "int (Month t) = month")
    case False
    then show ?thesis by (subst getMonthWeekByWeekNumDay_loop.simps) simp
  next
    case True
    from next_loop[OF True, of k] next_loop[OF True, of "k + 1"] less.prems True
    show ?thesis
      by (subst getMonthWeekByWeekNumDay_loop.simps) auto
  qed
qed

lemma getYearMonthDays_daysIn:
  assumes "1 \<le> m" "m \<le> 12"
  shows "getYearMonthDays y (int m) = int (daysIn y m)"
  using month_cases[OF assms]
  by (elim disjE) (auto simp: getYearMonthDays_def daysIn_def isLeap_def)

lemma last_day_Date:
  assumes "1 \<le> m" "m \<le> 12"
  shows "Date y (int m) (getYearMonthDays y (int m)) 0 0 0 0
         = \<lparr>Year = y, Month = m, Day = daysIn y m, Hour = 0, Minute = 0, Second = 0,
            Nanosecond = 0\<rparr>"
  unfolding getYearMonthDays_daysIn[OF assms]
  using assms daysIn_bounds[of y m] by (intro Date_in_range) auto

lemma wf_trigger_setDayField: "wf_trigger (setDayField t d) = wf_trigger t"
  by (auto simp: wf_trigger_def setDayField_def split: option.splits)

lemma wf_trigger_setWeekField: "wf_trigger t \<Longrightarrow> w \<le> 6 \<Longrightarrow> wf_trigger (setWeekField t w)"
  by (auto simp: wf_trigger_def setWeekField_def fieldWithin_def split: option.splits)

text \<open>A closure of a well-formed trigger returns, for a month from 1 to 12.\<close>

lemma runCalculate_returns:
  assumes "wf_calc c" "1 \<le> m" "m \<le> 12" "wf_trigger t"
  shows "\<exists>b t'. runCalculate c t y (int m) = Some (b, t') \<and> wf_trigger t'"
proof (cases c)
  case DayLast
  then show ?thesis using assms(4) by (auto simp: wf_trigger_setDayField)
next
  case DayLastWork
  let ?t0 = "\<lparr>Year = y, Month = m, Day = daysIn y m, Hour = 0, Minute = 0, Second = 0,
            Nanosecond = 0\<rparr>"
  have v: "valid_time ?t0" using assms daysIn_bounds[of y m] by (simp add: valid_time_def)
  from work_day_loop_returns[OF v] daysIn_bounds[of y m] obtain t' where
    "getLatestWorkDay_loop ?t0 = Some t'" "Month t' = m" by auto
  then show ?thesis
    using DayLastWork assms(4)
    by (auto simp: getLatestWorkDay_def last_day_Date[OF assms(2,3)] wf_trigger_setDayField)
next
  case (DayNearWork d)
  from work_day_loop_returns[OF Date_valid, of y "int m" "int d" 0 0 0 0] obtain t' where
    "getLatestWorkDay_loop (Date y (int m) (int d) 0 0 0 0) = Some t'" by blast
  then show ?thesis
    using DayNearWork assms(4) by (auto simp: getLatestWorkDay_def wf_trigger_setDayField)
next
  case (WeekLast weekNum)
  with assms(1) have w: "0 \<le> weekNum" "weekNum < 7" by simp_all
  from backward_week_loop_returns[OF w Date_valid,
      of y "int m" "getYearMonthDays y (int m)" 0 0 0 0]
  obtain t' where t': "getMonthLatestWeek y (int m) weekNum = Some t'"
    by (auto simp: getMonthLatestWeek_def)
  have "Weekday t' \<le> 6" using Weekday_less[of t'] by simp
  from wf_trigger_setWeekField[OF assms(4) this] t' WeekLast show ?thesis
    by (auto simp: wf_trigger_setDayField)
next
  case (WeekNth weekNum weekDay)
  from nth_week_loop_returns[OF Date_valid, of y "int m" 1 0 0 0 0 0 "int m" weekNum weekDay]
  obtain r where r: "getMonthWeekByWeekNumDay y (int m) weekNum weekDay = Some r"
    by (auto simp: getMonthWeekByWeekNumDay_def)
  show ?thesis
  proof (cases r)
    case None
    with r WeekNth assms(4) show ?thesis by auto
  next
    case (Some now)
    have "Weekday now \<le> 6" using Weekday_less[of now] by simp
    from wf_trigger_setWeekField[OF assms(4) this] r Some WeekNth show ?thesis
      by (auto simp: wf_trigger_setDayField)
  qed
qed

lemma Add_valid: "valid_time (Add t d)"
  by (simp add: Add_def Date_valid)

lemma fieldNextValue_not_None: "plainField f \<Longrightarrow> fieldNextValue f n \<noteq> None"
  using fieldNextValue_plain[of f n] by auto

lemma nextClock_returns:
  assumes "plainField (hour t)" "plainField (min' t)" "plainField (sec t)"
  shows "\<exists>s. nextClock t now y m d = Some s \<and> (\<forall>x. s = Carry x \<longrightarrow> valid_time x)"
  unfolding nextClock_def Let_def
  by (auto simp: Add_valid fieldNextValue_not_None[OF assms(1)]
        fieldNextValue_not_None[OF assms(2)] fieldNextValue_not_None[OF assms(3)]
      split: option.splits prod.splits)

lemma nextPlainDay_returns:
  assumes "fieldWithin (week t) 0 6" "plainField (hour t)" "plainField (min' t)"
    "plainField (sec t)"
  shows "\<exists>s. nextPlainDay t now y m = Some s \<and> (\<forall>x. s = Carry x \<longrightarrow> valid_time x)"
proof -
  let ?sw = "if \<not> (y = Year now \<and> m = Month now) then 0 else Weekday now"
  let ?sd = "if \<not> (y = Year now \<and> m = Month now) then 1 else Day now"
  obtain w wf where w: "fieldNextValue (week t) ?sw = Some (w, wf)" "w \<le> 6"
    using fieldNextValue_within[OF assms(1)] by blast
  show ?thesis
  proof (cases wf)
    case True
    then show ?thesis
      unfolding nextPlainDay_def Let_def w
      using nextClock_returns[OF assms(2,3,4)] by simp
  next
    case False
    from forward_week_loop_returns[OF _ _ Date_valid, of "int w" y "int m" "int ?sd" 0 0 0 0] w(2)
    obtain t' where "getMonthAfterLatestWeek y (int m) (int ?sd) (int w) = Some t'" "valid_time t'"
      by (auto simp: getMonthAfterLatestWeek_def)
    then show ?thesis
      unfolding nextPlainDay_def Let_def w using False by simp
  qed
qed

lemma nextStep_returns:
  assumes wf: "wf_trigger t"
  shows "\<exists>s t'. nextStep t now = Some (s, t') \<and> wf_trigger t'
            \<and> (\<forall>x. s = Carry x \<longrightarrow> valid_time x)"
proof -
  have pf: "plainField (hour t)" "plainField (min' t)" "plainField (sec t)"
    using wf by (simp_all add: wf_trigger_def)
  have fw: "fieldWithin (mon t) 1 12" using wf by (simp add: wf_trigger_def)
  obtain m mf where m: "fieldNextValue (mon t) (Month now) = Some (m, mf)" "1 \<le> m" "m \<le> 12"
    using fieldNextValue_within[OF fw, of "Month now"] by blast
  show ?thesis
  proof (cases mf)
    case False
    then show ?thesis
      unfolding nextStep_def Let_def m using wf by (simp add: Date_valid)
  next
    case True
    show ?thesis
    proof (cases "calculate (week t) \<noteq> None \<or> calculate (day t) \<noteq> None")
      case False
      then have "fieldWithin (week t) 0 6" using wf by (auto simp: wf_trigger_def)
      from nextPlainDay_returns[OF this pf, of now "Year now" m] False True wf
      show ?thesis
        unfolding nextStep_def Let_def m by auto
    next
      case calc: True
      define c where "c = (case calculate (week t) of Some c \<Rightarrow> c | None \<Rightarrow> the (calculate (day t)))"
      have cw: "wf_calc c"
        using calc wf by (auto simp: c_def wf_trigger_def split: option.splits)
      have run: "(case calculate (week t) of
                   Some c \<Rightarrow> runCalculate c t (Year now) (int m)
                 | None \<Rightarrow>
                     (case calculate (day t) of
                        Some c \<Rightarrow> runCalculate c t (Year now) (int m)
                      | None \<Rightarrow> None)) = runCalculate c t (Year now) (int m)"
        using calc by (auto simp: c_def split: option.splits)
      from runCalculate_returns[OF cw m(2,3) wf, of "Year now"] obtain b t' where
        r: "runCalculate c t (Year now) (int m) = Some (b, t')" and wf': "wf_trigger t'"
        by blast
      then have pf': "plainField (hour t')" "plainField (min' t')" "plainField (sec t')"
        by (simp_all add: wf_trigger_def)
      let ?cond = "\<not> b \<or> Before (Date (Year now) (int m) (int (start (day t'))) (Hour now)
                      (Minute now) (Second now) (Nanosecond now)) now"
      have eq: "nextStep t now =
          (if ?cond then Some (Carry (AddDate (Date (Year now) (int m) 1 0 0 0 0) 0 1 0), t')
           else (case nextClock t' now (Year now) m (start (day t')) of
                   None \<Rightarrow> None | Some r \<Rightarrow> Some (r, t')))"
        using calc True by (simp add: nextStep_def Let_def m run r)
      show ?thesis
      proof (cases ?cond)
        case True
        then show ?thesis using eq wf' by (simp add: AddDate_def Date_valid)
      next
        case False
        from nextClock_returns[OF pf', of now "Year now" m "start (day t')"] obtain s where
          "nextClock t' now (Year now) m (start (day t')) = Some s"
          "\<forall>x. s = Carry x \<longrightarrow> valid_time x" by blast
        then show ?thesis using eq False wf' by simp
      qed
    qed
  qed
qed

lemma trigger_next_returns:
  "wf_trigger t \<Longrightarrow> \<exists>r t'. trigger_next t now deeps = Some (r, t') \<and> wf_trigger t'"
proof (induction t now deeps rule: trigger_next.induct)
  case (1 t now deeps)
  let ?deep = "case deeps of [] \<Rightarrow> 0 | d # _ \<Rightarrow> d"
  show ?case
  proof (cases "deeps \<noteq> [] \<and> maxDeep < ?deep")
    case True
    then show ?thesis
      using "1.prems" by (subst trigger_next.simps) (simp add: Let_def)
  next
    case False
    from nextStep_returns[OF "1.prems", of now] obtain s t' where
      s: "nextStep t now = Some (s, t')" "wf_trigger t'" by blast
    show ?thesis
    proof (cases s)
      case (Found r)
      then show ?thesis
        using False s by (subst trigger_next.simps) (auto simp: Let_def)
    next
      case (Carry x)
      from "1.IH"[OF refl False s(1)[unfolded Carry] refl refl s(2)]
      obtain r t'' where "trigger_next t' x [?deep + 1] = Some (r, t'')" "wf_trigger t''"
        by blast
      then show ?thesis
        using False s Carry by (subst trigger_next.simps) (auto simp: Let_def)
    qed
  qed
qed

section \<open>The depth guard\<close>

lemma trigger_next_no_deeps: "trigger_next t now [] = trigger_next t now [0]"
  by (subst (1 2) trigger_next.simps) (simp add: maxDeep_def)

lemma trigger_next_guard: "maxDeep < d \<Longrightarrow> trigger_next t now (d # ds) = Some (zeroTime, t)"
  by (subst trigger_next.simps) simp

lemma trigger_next_pass:
  "d \<le> maxDeep \<Longrightarrow>
   trigger_next t now (d # ds) =
     (case nextStep t now of
        None \<Rightarrow> None
      | Some (Found r, t') \<Rightarrow> Some (r, t')
      | Some (Carry x, t') \<Rightarrow> trigger_next t' x [d + 1])"
  by (subst trigger_next.simps) (simp add: Let_def)

lemma trigger_next_nextWithin:
  "d \<le> maxDeep + 1 \<Longrightarrow> trigger_next t now [d] = nextWithin (maxDeep + 1 - d) t now"
proof (induction "maxDeep + 1 - d" arbitrary: d t now)
  case 0
  then have "maxDeep < d" by simp
  with 0 show ?case by (simp add: trigger_next_guard)
next
  case (Suc n)
  then have d: "d \<le> maxDeep" and n: "n = maxDeep + 1 - (d + 1)" by simp_all
  have IH: "\<And>t now. trigger_next t now [Suc d] = nextWithin n t now"
    using Suc.hyps(1)[OF n] d unfolding n by simp
  show ?case
    unfolding Suc.hyps(2)[symmetric] trigger_next_pass[OF d]
    by (simp add: IH split: option.splits prod.splits step.splits)
qed

lemma yearDays_nonneg: "0 \<le> k \<Longrightarrow> 365 * k \<le> 365 * k + k div 4 - k div 100 + k div 400" for k :: int
proof -
  assume k: "0 \<le> k"
  have "k div 100 \<le> k div 4" using k by (intro zdiv_mono2) simp_all
  moreover have "0 \<le> k div 400" using k by (simp add: pos_imp_zdiv_nonneg_iff)
  ultimately show ?thesis by simp
qed

lemma zeroTime_Before:
  assumes v: "valid_time now" and y: "1 \<le> Year now" and ne: "now \<noteq> zeroTime"
  shows "Before zeroTime now"
proof -
  let ?k = "Year now - 1"
  let ?Y = "365 * ?k + ?k div 4 - ?k div 100 + ?k div 400"
  let ?M = "daysBefore (Month now) + (if isLeap (Year now) \<and> 2 < Month now then 1 else 0)"
  have m: "1 \<le> Month now" "Month now \<le> 12" "1 \<le> Day now" using v by (auto simp: valid_time_def)
  have Y: "365 * ?k \<le> ?Y" using yearDays_nonneg[of ?k] y by simp
  have M: "0 \<le> ?M" by (simp add: daysBefore_def)
  have M1: "31 \<le> ?M" if "Month now \<noteq> 1"
    using month_cases[OF m(1,2)] that by (elim disjE) (simp_all add: daysBefore_def)
  have dn: "dayNumber (Year now) (Month now) (int (Day now)) = ?Y + ?M + int (Day now)"
    by (simp add: dayNumber_def)
  have z: "instant zeroTime = 86400 * 1000000000"
    by (simp add: instant_def zeroTime_def dayNumber_def daysBefore_def)
  show ?thesis
  proof (cases "Year now = 1 \<and> Month now = 1 \<and> Day now = 1")
    case False
    then have "2 \<le> dayNumber (Year now) (Month now) (int (Day now))"
      unfolding dn using Y M M1 m y by (cases "Year now = 1"; cases "Month now = 1") auto
    then have "2 * 86400 * 1000000000 \<le> instant now"
      unfolding instant_def by simp
    then show ?thesis unfolding Before_def z by simp
  next
    case True
    then have "0 < Hour now \<or> 0 < Minute now \<or> 0 < Second now \<or> 0 < Nanosecond now"
      using ne by (cases now) (auto simp: zeroTime_def)
    moreover have "dayNumber (Year now) (Month now) (int (Day now)) = 1"
      using True by (simp add: dayNumber_def daysBefore_def)
    ultimately show ?thesis
      unfolding Before_def z by (auto simp: instant_def)
  qed
qed

lemma wf_everySecond: "wf_trigger everySecond"
  by (simp add: wf_trigger_def everySecond_def plainRange_def plainField_def fieldWithin_def)

text \<open>
  Claim C3. For a trigger that \<open>parse\<close> returned (or any well-formed one), every instant
  and every \<open>deeps\<close>, \<^verbatim>\<open>trigger.next\<close> returns. A call without \<open>deeps\<close> is the same as
  \<open>maxDeep + 1\<close> passes at most, counted by \<open>nextWithin\<close>; a call at depth \<open>d\<close> has
  \<open>maxDeep + 1 - d\<close> passes left; and a call whose depth is above \<open>maxDeep\<close> returns the
  zero time with the trigger as it was. The zero time is before every instant of the
  calendar from year 1 on, itself apart.
\<close>

theorem trigger_next_terminates:
  assumes "wf_trigger t \<or> (\<exists>e. parse e = Some (Inr t))"
  shows "(\<exists>r t'. trigger_next t now deeps = Some (r, t') \<and> wf_trigger t')
       \<and> trigger_next t now [] = nextWithin (maxDeep + 1) t now
       \<and> (\<forall>d. d \<le> maxDeep + 1 \<longrightarrow> trigger_next t now [d] = nextWithin (maxDeep + 1 - d) t now)
       \<and> (\<forall>d ds. maxDeep < d \<longrightarrow> trigger_next t now (d # ds) = Some (zeroTime, t))
       \<and> (valid_time now \<and> 1 \<le> Year now \<and> now \<noteq> zeroTime \<longrightarrow> Before zeroTime now)"
proof -
  have wf: "wf_trigger t"
    using assms
  proof
    assume "\<exists>e. parse e = Some (Inr t)"
    then obtain e where e: "parse e = Some (Inr t)" ..
    with parse_result[of e] show ?thesis by simp
  qed
  show ?thesis
    using trigger_next_returns[OF wf, of now deeps] trigger_next_nextWithin[of 0 t now]
      trigger_next_nextWithin[of _ t now] trigger_next_guard[of _ t now] zeroTime_Before[of now]
    by (simp add: trigger_next_no_deeps)
qed

theorem trigger_next_terminates_witness:
  "wf_trigger everySecond
   \<and> (\<exists>r t'. trigger_next everySecond newYear2025 [] = Some (r, t') \<and> wf_trigger t')
   \<and> trigger_next everySecond newYear2025 [] = nextWithin (maxDeep + 1) everySecond newYear2025
   \<and> trigger_next everySecond newYear2025 [11] = Some (zeroTime, everySecond)
   \<and> Before zeroTime newYear2025"
proof -
  have v: "valid_time newYear2025 \<and> 1 \<le> Year newYear2025 \<and> newYear2025 \<noteq> zeroTime"
    by (simp add: valid_time_def newYear2025_def zeroTime_def daysIn_def)
  have d: "maxDeep < 11" by (simp add: maxDeep_def)
  from trigger_next_terminates[of everySecond newYear2025 "[]"] v d wf_everySecond
  show ?thesis by blast
qed

section \<open>The last day of the month\<close>

lemma parse_lastDay23: "parse ''0 0 23 L * ?'' = Some (Inr lastDay23)"
  by (simp add: parse_eval lastDay23_def plainRange_def)

lemma norm_february: "normYear y 2 = y" "normMonth 2 = 2"
  using norm_month_id[of 2 y] by simp_all

lemma february_instants:
  assumes v: "valid_time now" and m: "Month now = 2"
  shows "instant now
         = ((dayNumber (Year now) 2 0 + int (Day now)) * 86400 + int (Hour now) * 3600
              + int (Minute now) * 60 + int (Second now)) * 1000000000 + int (Nanosecond now)"
    and "instant (Date (Year now) 2 (int (daysIn (Year now) 2)) h mi s ns)
         = ((dayNumber (Year now) 2 0 + int (daysIn (Year now) 2)) * 86400 + int h * 3600
              + int mi * 60 + int s) * 1000000000 + int ns"
    and "Day now \<le> daysIn (Year now) 2"
proof -
  show "instant now
         = ((dayNumber (Year now) 2 0 + int (Day now)) * 86400 + int (Hour now) * 3600
              + int (Minute now) * 60 + int (Second now)) * 1000000000 + int (Nanosecond now)"
    using dayNumber_add[of "Year now" 2 0 "int (Day now)"] by (simp add: instant_def m)
  show "instant (Date (Year now) 2 (int (daysIn (Year now) 2)) h mi s ns)
         = ((dayNumber (Year now) 2 0 + int (daysIn (Year now) 2)) * 86400 + int h * 3600
              + int mi * 60 + int s) * 1000000000 + int ns"
    unfolding Date_instant norm_february
    using dayNumber_add[of "Year now" 2 0 "int (daysIn (Year now) 2)"] by simp
  show "Day now \<le> daysIn (Year now) 2" using v m by (simp add: valid_time_def)
qed

lemma daysIn_february:
  "daysIn y 2 = (if (y mod 4 = 0 \<and> y mod 100 \<noteq> 0) \<or> y mod 400 = 0 then 29 else 28)"
  using mod_400_100[of y] mod_100_4[of y] by (auto simp: daysIn_def isLeap_def)

lemma lastDay23_in_february:
  assumes v: "valid_time now" and m: "Month now = 2"
    and le: "\<not> After now (Date (Year now) 2 (int (daysIn (Year now) 2)) 23 0 0 0)"
  shows "nextStep lastDay23 now
         = Some (Found (Date (Year now) 2 (int (daysIn (Year now) 2)) 23 0 0 0),
                 setDayField lastDay23 (daysIn (Year now) 2))"
proof -
  let ?L = "daysIn (Year now) 2"
  note fi = february_instants[OF v m]
  have c: "Hour now < 24" "Minute now < 60" "Second now < 60" "Nanosecond now < 1000000000"
    using v by (auto simp: valid_time_def)
  have calc: "runCalculate DayLast lastDay23 (Year now) 2 = Some (True, setDayField lastDay23 ?L)"
    using getYearMonthDays_daysIn[of 2 "Year now"] by simp
  have nb: "\<not> Before (Date (Year now) 2 (int ?L) (Hour now) (Minute now) (Second now)
                        (Nanosecond now)) now"
    unfolding Before_def fi(1) fi(2) using fi(3) by simp
  have late: "Minute now = 0 \<and> Second now = 0" if "Day now = ?L" "Hour now = 23"
    using le that unfolding After_def fi(1) fi(2) by simp
  have clock: "nextClock (setDayField lastDay23 ?L) now (Year now) 2 ?L
               = Some (Found (Date (Year now) 2 (int ?L) 23 0 0 0))"
  proof (cases "Day now = ?L \<and> Hour now = 23")
    case True
    with late show ?thesis
      using m by (simp add: nextClock_def Let_def fieldNextValue_def getRangeNextValue_eq
            setDayField_def lastDay23_def plainRange_def)
  next
    case False
    then show ?thesis
      using m c by (auto simp: nextClock_def Let_def fieldNextValue_def getRangeNextValue_eq
            setDayField_def lastDay23_def plainRange_def max_def)
  qed
  have mon: "fieldNextValue (mon lastDay23) 2 = Some (2, True)"
    by (simp add: fieldNextValue_def getRangeNextValue_eq lastDay23_def plainRange_def)
  have cw: "calculate (week lastDay23) = None" "calculate (day lastDay23) = Some DayLast"
    by (simp_all add: lastDay23_def plainRange_def newField_def)
  have sd: "start (day (setDayField lastDay23 ?L)) = ?L" by (simp add: setDayField_def)
  have gd: "nat (getYearMonthDays (Year now) 2) = ?L"
    using getYearMonthDays_daysIn[of 2 "Year now"] by simp
  show ?thesis
    unfolding nextStep_def Let_def m mon
    using nb by (simp add: cw gd sd clock)
qed

text \<open>
  Claim C7. The expression \<^verbatim>\<open>0 0 23 L * ?\<close> parses to the trigger \<open>lastDay23\<close>. From every
  instant of February that is not after the fire time, the resolver returns 23:00:00 of
  February 29 when the year is a leap year by the 4/100/400 rule and of February 28
  otherwise. In general the closure of \<^verbatim>\<open>L\<close> sets the day to \<^verbatim>\<open>getYearMonthDays\<close>, which for
  a month from 1 to 12 is the last day of that month: that day is a day of the month,
  and the day after it is the first of the following month.
\<close>

theorem last_day_rule:
  "parse ''0 0 23 L * ?'' = Some (Inr lastDay23)
   \<and> (valid_time now \<and> Month now = 2
        \<and> \<not> After now (Date (Year now) 2
                (if (Year now mod 4 = 0 \<and> Year now mod 100 \<noteq> 0) \<or> Year now mod 400 = 0
                 then 29 else 28) 23 0 0 0)
      \<longrightarrow> (\<exists>t'. trigger_next lastDay23 now []
             = Some (Date (Year now) 2
                       (if (Year now mod 4 = 0 \<and> Year now mod 100 \<noteq> 0) \<or> Year now mod 400 = 0
                        then 29 else 28) 23 0 0 0, t')))
   \<and> (1 \<le> m \<and> m \<le> 12
      \<longrightarrow> runCalculate DayLast t y (int m)
            = Some (True, setDayField t (nat (getYearMonthDays y (int m))))
          \<and> Date y (int m) (getYearMonthDays y (int m)) 0 0 0 0
            = \<lparr>Year = y, Month = m, Day = nat (getYearMonthDays y (int m)), Hour = 0,
               Minute = 0, Second = 0, Nanosecond = 0\<rparr>
          \<and> Date y (int m) (getYearMonthDays y (int m) + 1) 0 0 0 0
            = \<lparr>Year = (if m = 12 then y + 1 else y), Month = (if m = 12 then 1 else m + 1),
               Day = 1, Hour = 0, Minute = 0, Second = 0, Nanosecond = 0\<rparr>)"
proof (intro conjI impI)
  show "parse ''0 0 23 L * ?'' = Some (Inr lastDay23)" by (rule parse_lastDay23)
next
  assume a: "valid_time now \<and> Month now = 2
        \<and> \<not> After now (Date (Year now) 2
                (if (Year now mod 4 = 0 \<and> Year now mod 100 \<noteq> 0) \<or> Year now mod 400 = 0
                 then 29 else 28) 23 0 0 0)"
  have e: "int (daysIn (Year now) 2)
           = (if (Year now mod 4 = 0 \<and> Year now mod 100 \<noteq> 0) \<or> Year now mod 400 = 0
              then 29 else 28)"
    by (simp add: daysIn_february)
  from a have "nextStep lastDay23 now
         = Some (Found (Date (Year now) 2 (int (daysIn (Year now) 2)) 23 0 0 0),
                 setDayField lastDay23 (daysIn (Year now) 2))"
    unfolding e[symmetric] by (intro lastDay23_in_february) simp_all
  then have "trigger_next lastDay23 now []
         = Some (Date (Year now) 2 (int (daysIn (Year now) 2)) 23 0 0 0,
                 setDayField lastDay23 (daysIn (Year now) 2))"
    by (simp add: trigger_next_no_deeps trigger_next_pass)
  then show "\<exists>t'. trigger_next lastDay23 now []
             = Some (Date (Year now) 2
                       (if (Year now mod 4 = 0 \<and> Year now mod 100 \<noteq> 0) \<or> Year now mod 400 = 0
                        then 29 else 28) 23 0 0 0, t')"
    unfolding e by blast
next
  assume m: "1 \<le> m \<and> m \<le> 12"
  show "runCalculate DayLast t y (int m)
            = Some (True, setDayField t (nat (getYearMonthDays y (int m))))" by simp
  show "Date y (int m) (getYearMonthDays y (int m)) 0 0 0 0
            = \<lparr>Year = y, Month = m, Day = nat (getYearMonthDays y (int m)), Hour = 0,
               Minute = 0, Second = 0, Nanosecond = 0\<rparr>"
    using m last_day_Date[of m y] getYearMonthDays_daysIn[of m y] by simp
  let ?y = "if 12 \<le> m then y + 1 else y" and ?m = "if 12 \<le> m then 1 else m + 1"
  have "normDay y m (int (daysIn y m) + 1) = normDay ?y ?m 1"
    by (subst normDay.simps) simp
  also have "\<dots> = (?y, ?m, 1)"
    using daysIn_bounds[of ?y ?m] by (subst normDay.simps) simp
  finally show "Date y (int m) (getYearMonthDays y (int m) + 1) 0 0 0 0
            = \<lparr>Year = (if m = 12 then y + 1 else y), Month = (if m = 12 then 1 else m + 1),
               Day = 1, Hour = 0, Minute = 0, Second = 0, Nanosecond = 0\<rparr>"
    using m norm_month_id[of m y] getYearMonthDays_daysIn[of m y]
    by (auto simp: Date_def)
qed

theorem last_day_rule_witness:
  "parse ''0 0 23 L * ?'' = Some (Inr lastDay23)
   \<and> (\<exists>t'. trigger_next lastDay23
              \<lparr>Year = 2024, Month = 2, Day = 10, Hour = 8, Minute = 15, Second = 0, Nanosecond = 0\<rparr> []
            = Some (\<lparr>Year = 2024, Month = 2, Day = 29, Hour = 23, Minute = 0, Second = 0,
                     Nanosecond = 0\<rparr>, t'))
   \<and> (\<exists>t'. trigger_next lastDay23
              \<lparr>Year = 2025, Month = 2, Day = 28, Hour = 23, Minute = 0, Second = 0, Nanosecond = 0\<rparr> []
            = Some (\<lparr>Year = 2025, Month = 2, Day = 28, Hour = 23, Minute = 0, Second = 0,
                     Nanosecond = 0\<rparr>, t'))
   \<and> Date 1900 2 (getYearMonthDays 1900 2 + 1) 0 0 0 0
       = \<lparr>Year = 1900, Month = 3, Day = 1, Hour = 0, Minute = 0, Second = 0, Nanosecond = 0\<rparr>
   \<and> getYearMonthDays 1900 2 = 28"
proof -
  let ?a = "\<lparr>Year = 2024, Month = 2, Day = 10, Hour = 8, Minute = 15, Second = 0, Nanosecond = 0\<rparr>"
  let ?b = "\<lparr>Year = 2025, Month = 2, Day = 28, Hour = 23, Minute = 0, Second = 0, Nanosecond = 0\<rparr>"
  have a: "valid_time ?a \<and> Month ?a = 2 \<and> \<not> After ?a (Date (Year ?a) 2 29 23 0 0 0)"
    by (simp add: valid_time_def time_eval)
  have b: "valid_time ?b \<and> Month ?b = 2 \<and> \<not> After ?b (Date (Year ?b) 2 28 23 0 0 0)"
    by (simp add: valid_time_def time_eval)
  have da: "Date 2024 2 29 23 0 0 0
      = \<lparr>Year = 2024, Month = 2, Day = 29, Hour = 23, Minute = 0, Second = 0, Nanosecond = 0\<rparr>"
    by (simp add: time_eval)
  have db: "Date 2025 2 28 23 0 0 0
      = \<lparr>Year = 2025, Month = 2, Day = 28, Hour = 23, Minute = 0, Second = 0, Nanosecond = 0\<rparr>"
    by (simp add: time_eval)
  have g: "getYearMonthDays 1900 2 = 28" by (simp add: getYearMonthDays_def)
  from last_day_rule[of ?a 2 undefined 1900] a da
  have 1: "parse ''0 0 23 L * ?'' = Some (Inr lastDay23)"
    and 2: "\<exists>t'. trigger_next lastDay23 ?a []
            = Some (\<lparr>Year = 2024, Month = 2, Day = 29, Hour = 23, Minute = 0, Second = 0,
                     Nanosecond = 0\<rparr>, t')"
    and 4: "Date 1900 2 (getYearMonthDays 1900 2 + 1) 0 0 0 0
       = \<lparr>Year = 1900, Month = 3, Day = 1, Hour = 0, Minute = 0, Second = 0, Nanosecond = 0\<rparr>"
    by simp_all
  from last_day_rule[of ?b 2 undefined 1900] b db
  have 3: "\<exists>t'. trigger_next lastDay23 ?b []
            = Some (\<lparr>Year = 2025, Month = 2, Day = 28, Hour = 23, Minute = 0, Second = 0,
                     Nanosecond = 0\<rparr>, t')"
    by simp
  from 1 2 3 4 g show ?thesis by blast
qed

lemma range_day_none:
  "(\<And>j. i \<le> j \<Longrightarrow> j \<le> e \<Longrightarrow> d \<le> j \<Longrightarrow>
         Weekday (Date year (int nextMonth) (int j) 0 0 0 0) \<noteq> nextWeekDay) \<Longrightarrow>
   getRangeDayNextValue_loop i e year nextMonth d nextWeekDay = 0"
proof (induction i e year nextMonth d nextWeekDay rule: getRangeDayNextValue_loop.induct)
  case (1 i e year nextMonth d nextWeekDay)
  show ?case
  proof (cases "i \<le> e")
    case False
    then show ?thesis by (subst getRangeDayNextValue_loop.simps) simp
  next
    case True
    have no: "\<not> (d \<le> i \<and> Weekday (Date year (int nextMonth) (int i) 0 0 0 0) = nextWeekDay)"
      using "1.prems"[of i] True by auto
    have "getRangeDayNextValue_loop (i + 1) e year nextMonth d nextWeekDay = 0"
      using "1.IH"[OF True no] "1.prems" by simp
    then show ?thesis
      using True no by (subst getRangeDayNextValue_loop.simps) auto
  qed
qed

lemma enum_day_none:
  "(\<And>j. j \<in> set vs \<Longrightarrow> d \<le> j \<Longrightarrow>
         Weekday (Date year (int nextMonth) (int j) 0 0 0 0) \<noteq> nextWeekDay) \<Longrightarrow>
   getIncreaseDayNextValue vs year nextMonth d nextWeekDay = 0"
  by (induction vs) auto

lemma day_zero_Date:
  assumes "1 \<le> m" "m \<le> 12" "h < 24" "mi < 60" "s < 60"
  shows "Date y (int m) 0 h mi s 0
         = \<lparr>Year = (if m = 1 then y - 1 else y), Month = (if m = 1 then 12 else m - 1),
            Day = daysIn (if m = 1 then y - 1 else y) (if m = 1 then 12 else m - 1),
            Hour = h, Minute = mi, Second = s, Nanosecond = 0\<rparr>"
proof -
  let ?y = "if m \<le> 1 then y - 1 else y" and ?m = "if m \<le> 1 then 12 else m - 1"
  have "normDay y m 0 = normDay ?y ?m (int (daysIn ?y ?m))"
    by (subst normDay.simps) simp
  also have "\<dots> = (?y, ?m, daysIn ?y ?m)"
    using daysIn_bounds[of ?y ?m] by (subst normDay.simps) simp
  finally show ?thesis
    using assms norm_month_id[of m y] by (auto simp: Date_def)
qed

text \<open>
  Claim C9. Neither the day field nor the week field has a closure, the month and the
  weekday are found, and no day of the day field at or after the start day falls on
  that weekday in the month. Then the day helper returns 0, and \<^verbatim>\<open>trigger.next\<close> goes on
  with day 0: the clock is resolved from its least values and the result is built by
  \<^verbatim>\<open>time.Date\<close> with day 0 and no carry, which is the last day of the month before.
\<close>

theorem no_matching_day_gives_day_zero:
  assumes "calculate (week t) = None" and "calculate (day t) = None"
    and "1 \<le> Day now"
    and "fieldNextValue (mon t) (Month now) = Some (nextMonth, True)"
    and "1 \<le> nextMonth" and "nextMonth \<le> 12"
    and "fieldNextValue (week t) (if nextMonth \<noteq> Month now then 0 else Weekday now)
         = Some (nextWeekDay, True)"
    and "\<forall>i. (if isRange (day t) then start (day t) \<le> i \<and> i \<le> end' (day t)
               else i \<in> set (values' (day t)))
              \<and> (if nextMonth \<noteq> Month now then 1 else Day now) \<le> i
           \<longrightarrow> Weekday (Date (Year now) (int nextMonth) (int i) 0 0 0 0) \<noteq> nextWeekDay"
    and "fieldNextValue (hour t) 0 = Some (nextHour, True)" and "nextHour < 24"
    and "fieldNextValue (min' t) 0 = Some (nextMin, True)" and "nextMin < 60"
    and "fieldNextValue (sec t) 0 = Some (nextSec, True)" and "nextSec < 60"
  shows "(if isRange (day t) then
            getRangeDayNextValue (start (day t)) (end' (day t)) (Year now) nextMonth
              (if nextMonth \<noteq> Month now then 1 else Day now) nextWeekDay
          else
            getIncreaseDayNextValue (values' (day t)) (Year now) nextMonth
              (if nextMonth \<noteq> Month now then 1 else Day now) nextWeekDay) = 0
       \<and> nextStep t now
           = Some (Found (Date (Year now) (int nextMonth) 0 nextHour nextMin nextSec 0), t)
       \<and> trigger_next t now []
           = Some (Date (Year now) (int nextMonth) 0 nextHour nextMin nextSec 0, t)
       \<and> Date (Year now) (int nextMonth) 0 nextHour nextMin nextSec 0
           = \<lparr>Year = (if nextMonth = 1 then Year now - 1 else Year now),
              Month = (if nextMonth = 1 then 12 else nextMonth - 1),
              Day = daysIn (if nextMonth = 1 then Year now - 1 else Year now)
                      (if nextMonth = 1 then 12 else nextMonth - 1),
              Hour = nextHour, Minute = nextMin, Second = nextSec, Nanosecond = 0\<rparr>"
proof -
  let ?sd = "if nextMonth \<noteq> Month now then 1 else Day now"
  let ?helper = "if isRange (day t) then
            getRangeDayNextValue (start (day t)) (end' (day t)) (Year now) nextMonth ?sd nextWeekDay
          else getIncreaseDayNextValue (values' (day t)) (Year now) nextMonth ?sd nextWeekDay"
  have zero: "?helper = 0"
  proof (cases "isRange (day t)")
    case True
    then show ?thesis
      using assms(8) by (simp add: getRangeDayNextValue_def range_day_none)
  next
    case False
    then show ?thesis
      using assms(8) by (simp add: enum_day_none)
  qed
  have clock: "nextClock t now (Year now) nextMonth 0
               = Some (Found (Date (Year now) (int nextMonth) 0 nextHour nextMin nextSec 0))"
    using assms(3,9,11,13) by (simp add: nextClock_def Let_def)
  have plain: "nextPlainDay t now (Year now) nextMonth
               = Some (Found (Date (Year now) (int nextMonth) 0 nextHour nextMin nextSec 0))"
    unfolding nextPlainDay_def Let_def
    using assms(7) zero clock by (simp split: if_splits)
  have step: "nextStep t now
           = Some (Found (Date (Year now) (int nextMonth) 0 nextHour nextMin nextSec 0), t)"
    unfolding nextStep_def Let_def using assms(1,2,4) plain by simp
  then have nx: "trigger_next t now []
           = Some (Date (Year now) (int nextMonth) 0 nextHour nextMin nextSec 0, t)"
    by (simp add: trigger_next_no_deeps trigger_next_pass)
  from zero step nx day_zero_Date[OF assms(5,6,10,12,14), of "Year now"]
  show ?thesis by blast
qed

section \<open>The resolver and the parser on particular inputs\<close>

lemmas example_eval = plainRange_def newField_def atTime_def newYear2025_def everySecond_def
  lastDay23_def firstDay0930_def newYearMidnight_def february31W_def day15Midnight_def

lemmas step_eval = nextStep_def nextClock_def nextPlainDay_def Let_def fieldNextValue_def
  getRangeNextValue_eq getRangeDayNextValue_def getRangeDayNextValue_loop.simps setDayField_def

lemma atTime_sel:
  "Year (atTime y m d h mi s) = y" "Month (atTime y m d h mi s) = m"
  "Day (atTime y m d h mi s) = d" "Hour (atTime y m d h mi s) = h"
  "Minute (atTime y m d h mi s) = mi" "Second (atTime y m d h mi s) = s"
  "Nanosecond (atTime y m d h mi s) = 0"
  by (simp_all add: atTime_def)

lemma found_pass:
  "nextStep t now = Some (Found r, t') \<Longrightarrow> trigger_next t now [] = Some (r, t')"
  by (simp add: trigger_next_no_deeps trigger_next_pass)

lemma carry_pass:
  "nextStep t now = Some (Carry x, t') \<Longrightarrow> d \<le> maxDeep \<Longrightarrow> d' = d + 1 \<Longrightarrow>
   trigger_next t now [d] = trigger_next t' x [d']"
  by (simp add: trigger_next_pass)

subsection \<open>The first of the month at 09:30, asked on the tenth\<close>

lemma parse_firstDay0930: "parse ''0 30 9 1 * ?'' = Some (Inr firstDay0930)"
  by (simp add: parse_eval example_eval)

lemma next_firstDay0930:
  "trigger_next firstDay0930 (atTime 2025 1 10 0 0 0) []
   = Some (atTime 2024 12 31 9 30 0, firstDay0930)"
  by (simp add: next_eval time_eval example_eval)

lemma before_tenth: "Before (atTime 2024 12 31 9 30 0) (atTime 2025 1 10 0 0 0)"
  by (simp add: time_eval atTime_def)

subsection \<open>Midnight of January 1, asked again one second after it has fired\<close>

lemma parse_newYearMidnight: "parse ''0 0 0 1 1 ?'' = Some (Inr newYearMidnight)"
  by (simp add: parse_eval example_eval)

lemma next_newYearMidnight_1:
  "trigger_next newYearMidnight (atTime 2025 1 1 0 0 0) []
   = Some (atTime 2025 1 1 0 0 0, newYearMidnight)"
  by (simp add: next_eval time_eval example_eval)

lemma one_second_later:
  "Add (atTime 2025 1 1 0 0 0) Second_ns = atTime 2025 1 1 0 0 1"
  "Add (atTime 2008 2 29 0 0 0) Second_ns = atTime 2008 2 29 0 0 1"
  by (simp_all add: time_eval atTime_def)

lemma next_newYearMidnight_2:
  "trigger_next newYearMidnight (atTime 2025 1 1 0 0 1) []
   = Some (atTime 2024 12 31 0 0 0, newYearMidnight)"
  by (simp add: next_eval time_eval example_eval)

lemma before_new_year: "Before (atTime 2024 12 31 0 0 0) (atTime 2025 1 1 0 0 0)"
  by (simp add: time_eval atTime_def)

subsection \<open>The working day at or before February 31\<close>

lemma parse_february31W: "parse ''0 0 0 31W 2 ?'' = Some (Inr february31W)"
  by (simp add: parse_eval example_eval)

lemma setDayField_twice: "setDayField (setDayField t d) d = setDayField t d"
  by (simp add: setDayField_def)

lemma february31W_fields:
  "fieldNextValue (mon february31W) 2 = Some (2, True)"
  "fieldNextValue (mon (setDayField february31W d)) 2 = Some (2, True)"
  "fieldNextValue (mon (setDayField february31W d)) 3 = Some (2, False)"
  "calculate (week february31W) = None"
  "calculate (week (setDayField february31W d)) = None"
  "calculate (day february31W) = Some (DayNearWork 31)"
  "calculate (day (setDayField february31W d)) = Some (DayNearWork 31)"
  "start (day (setDayField t d)) = d"
  by (simp_all add: fieldNextValue_def getRangeNextValue_eq setDayField_def example_eval)

text \<open>
  February 31 of 2008 is March 2, a Sunday, and the working day before it is Friday,
  February 29. In the four years after, it is a working day of March.
\<close>

lemma work2008: "runCalculate (DayNearWork 31) t 2008 2 = Some (True, setDayField t 29)"
  by (simp add: time_eval getLatestWorkDay_loop.simps getLatestWorkDay_def)

lemma work2009: "runCalculate (DayNearWork 31) t 2009 2 = Some (False, t)"
  by (simp add: time_eval getLatestWorkDay_loop.simps getLatestWorkDay_def)

lemma work2010: "runCalculate (DayNearWork 31) t 2010 2 = Some (False, t)"
  by (simp add: time_eval getLatestWorkDay_loop.simps getLatestWorkDay_def)

lemma work2011: "runCalculate (DayNearWork 31) t 2011 2 = Some (False, t)"
  by (simp add: time_eval getLatestWorkDay_loop.simps getLatestWorkDay_def)

lemma work2012: "runCalculate (DayNearWork 31) t 2012 2 = Some (False, t)"
  by (simp add: time_eval getLatestWorkDay_loop.simps getLatestWorkDay_def)

lemma clock0: "nextClock (setDayField february31W 29) (atTime 2008 2 1 0 0 0) 2008 2 29
   = Some (Found (atTime 2008 2 29 0 0 0))"
  by (simp add: step_eval example_eval time_eval)

lemma pass0: "nextStep february31W (atTime 2008 2 1 0 0 0)
   = Some (Found (atTime 2008 2 29 0 0 0), setDayField february31W 29)"
proof -
  have nb: "\<not> Before (Date 2008 2 29 0 0 0 0) (atTime 2008 2 1 0 0 0)"
    by (simp add: time_eval atTime_def)
  show ?thesis
    unfolding nextStep_def Let_def
    using nb clock0
    by (simp add: atTime_sel february31W_fields work2008 setDayField_twice
        del: runCalculate.simps)
qed

lemma clock1: "nextClock (setDayField february31W 29) (atTime 2008 2 29 0 0 1) 2008 2 29
   = Some (Carry (atTime 2008 2 29 0 1 0))"
  by (simp add: step_eval example_eval time_eval)

lemma pass1: "nextStep (setDayField february31W 29) (atTime 2008 2 29 0 0 1)
   = Some (Carry (atTime 2008 2 29 0 1 0), setDayField february31W 29)"
proof -
  have nb: "\<not> Before (Date 2008 2 29 0 0 1 0) (atTime 2008 2 29 0 0 1)"
    by (simp add: time_eval atTime_def)
  show ?thesis
    unfolding nextStep_def Let_def
    using nb clock1
    by (simp add: atTime_sel february31W_fields work2008 setDayField_twice
        del: runCalculate.simps)
qed

lemma clock2: "nextClock (setDayField february31W 29) (atTime 2008 2 29 0 1 0) 2008 2 29
   = Some (Carry (atTime 2008 2 29 1 0 0))"
  by (simp add: step_eval example_eval time_eval)

lemma pass2: "nextStep (setDayField february31W 29) (atTime 2008 2 29 0 1 0)
   = Some (Carry (atTime 2008 2 29 1 0 0), setDayField february31W 29)"
proof -
  have nb: "\<not> Before (Date 2008 2 29 0 1 0 0) (atTime 2008 2 29 0 1 0)"
    by (simp add: time_eval atTime_def)
  show ?thesis
    unfolding nextStep_def Let_def
    using nb clock2
    by (simp add: atTime_sel february31W_fields work2008 setDayField_twice
        del: runCalculate.simps)
qed

lemma clock3: "nextClock (setDayField february31W 29) (atTime 2008 2 29 1 0 0) 2008 2 29
   = Some (Carry (atTime 2008 3 1 0 0 0))"
  by (simp add: step_eval example_eval time_eval)

lemma pass3: "nextStep (setDayField february31W 29) (atTime 2008 2 29 1 0 0)
   = Some (Carry (atTime 2008 3 1 0 0 0), setDayField february31W 29)"
proof -
  have nb: "\<not> Before (Date 2008 2 29 1 0 0 0) (atTime 2008 2 29 1 0 0)"
    by (simp add: time_eval atTime_def)
  show ?thesis
    unfolding nextStep_def Let_def
    using nb clock3
    by (simp add: atTime_sel february31W_fields work2008 setDayField_twice
        del: runCalculate.simps)
qed

lemma march_pass:
  "nextStep (setDayField february31W 29) (atTime y 3 1 0 0 0)
   = Some (Carry (atTime (y + 1) 2 1 0 0 0), setDayField february31W 29)"
proof -
  have d: "Date (y + 1) 2 1 0 0 0 0 = atTime (y + 1) 2 1 0 0 0"
    using Date_in_range[of 2 1 "y + 1" 0 0 0 0] by (simp add: atTime_def daysIn_def)
  show ?thesis
    unfolding nextStep_def Let_def
    by (simp add: atTime_sel february31W_fields d)
qed

lemma february2009_pass:
  "nextStep (setDayField february31W 29) (atTime 2009 2 1 0 0 0)
   = Some (Carry (atTime 2009 3 1 0 0 0), setDayField february31W 29)"
proof -
  have d: "AddDate (Date 2009 2 1 0 0 0 0) 0 1 0 = atTime 2009 3 1 0 0 0"
    by (simp add: time_eval atTime_def)
  show ?thesis
    unfolding nextStep_def Let_def
    by (simp add: atTime_sel february31W_fields work2009 d del: runCalculate.simps)
qed

lemma february2010_pass:
  "nextStep (setDayField february31W 29) (atTime 2010 2 1 0 0 0)
   = Some (Carry (atTime 2010 3 1 0 0 0), setDayField february31W 29)"
proof -
  have d: "AddDate (Date 2010 2 1 0 0 0 0) 0 1 0 = atTime 2010 3 1 0 0 0"
    by (simp add: time_eval atTime_def)
  show ?thesis
    unfolding nextStep_def Let_def
    by (simp add: atTime_sel february31W_fields work2010 d del: runCalculate.simps)
qed

lemma february2011_pass:
  "nextStep (setDayField february31W 29) (atTime 2011 2 1 0 0 0)
   = Some (Carry (atTime 2011 3 1 0 0 0), setDayField february31W 29)"
proof -
  have d: "AddDate (Date 2011 2 1 0 0 0 0) 0 1 0 = atTime 2011 3 1 0 0 0"
    by (simp add: time_eval atTime_def)
  show ?thesis
    unfolding nextStep_def Let_def
    by (simp add: atTime_sel february31W_fields work2011 d del: runCalculate.simps)
qed

lemma february2012_pass:
  "nextStep (setDayField february31W 29) (atTime 2012 2 1 0 0 0)
   = Some (Carry (atTime 2012 3 1 0 0 0), setDayField february31W 29)"
proof -
  have d: "AddDate (Date 2012 2 1 0 0 0 0) 0 1 0 = atTime 2012 3 1 0 0 0"
    by (simp add: time_eval atTime_def)
  show ?thesis
    unfolding nextStep_def Let_def
    by (simp add: atTime_sel february31W_fields work2012 d del: runCalculate.simps)
qed

lemma next_february31W_1:
  "trigger_next february31W (atTime 2008 2 1 0 0 0) []
   = Some (atTime 2008 2 29 0 0 0, setDayField february31W 29)"
  by (rule found_pass[OF pass0])

text \<open>
  Asked again one second after that day has begun, the resolver carries eleven times
  (three times within the day, then from March to February and from February to March
  of the four years after) and the twelfth call is above the depth guard.
\<close>

lemma next_february31W_2:
  "trigger_next (setDayField february31W 29) (atTime 2008 2 29 0 0 1) []
   = Some (zeroTime, setDayField february31W 29)"
proof -
  let ?t = "setDayField february31W 29"
  have march2008: "nextStep ?t (atTime 2008 3 1 0 0 0) = Some (Carry (atTime 2009 2 1 0 0 0), ?t)"
    using march_pass[of 2008] by simp
  have march2009: "nextStep ?t (atTime 2009 3 1 0 0 0) = Some (Carry (atTime 2010 2 1 0 0 0), ?t)"
    using march_pass[of 2009] by simp
  have march2010: "nextStep ?t (atTime 2010 3 1 0 0 0) = Some (Carry (atTime 2011 2 1 0 0 0), ?t)"
    using march_pass[of 2010] by simp
  have march2011: "nextStep ?t (atTime 2011 3 1 0 0 0) = Some (Carry (atTime 2012 2 1 0 0 0), ?t)"
    using march_pass[of 2011] by simp
  have "trigger_next ?t (atTime 2008 2 29 0 0 1) [] = trigger_next ?t (atTime 2008 2 29 0 0 1) [0]"
    by (rule trigger_next_no_deeps)
  also have "\<dots> = trigger_next ?t (atTime 2008 2 29 0 1 0) [1]"
    by (rule carry_pass[OF pass1]) (simp_all add: maxDeep_def)
  also have "\<dots> = trigger_next ?t (atTime 2008 2 29 1 0 0) [2]"
    by (rule carry_pass[OF pass2]) (simp_all add: maxDeep_def)
  also have "\<dots> = trigger_next ?t (atTime 2008 3 1 0 0 0) [3]"
    by (rule carry_pass[OF pass3]) (simp_all add: maxDeep_def)
  also have "\<dots> = trigger_next ?t (atTime 2009 2 1 0 0 0) [4]"
    by (rule carry_pass[OF march2008]) (simp_all add: maxDeep_def)
  also have "\<dots> = trigger_next ?t (atTime 2009 3 1 0 0 0) [5]"
    by (rule carry_pass[OF february2009_pass]) (simp_all add: maxDeep_def)
  also have "\<dots> = trigger_next ?t (atTime 2010 2 1 0 0 0) [6]"
    by (rule carry_pass[OF march2009]) (simp_all add: maxDeep_def)
  also have "\<dots> = trigger_next ?t (atTime 2010 3 1 0 0 0) [7]"
    by (rule carry_pass[OF february2010_pass]) (simp_all add: maxDeep_def)
  also have "\<dots> = trigger_next ?t (atTime 2011 2 1 0 0 0) [8]"
    by (rule carry_pass[OF march2010]) (simp_all add: maxDeep_def)
  also have "\<dots> = trigger_next ?t (atTime 2011 3 1 0 0 0) [9]"
    by (rule carry_pass[OF february2011_pass]) (simp_all add: maxDeep_def)
  also have "\<dots> = trigger_next ?t (atTime 2012 2 1 0 0 0) [10]"
    by (rule carry_pass[OF march2011]) (simp_all add: maxDeep_def)
  also have "\<dots> = trigger_next ?t (atTime 2012 3 1 0 0 0) [11]"
    by (rule carry_pass[OF february2012_pass]) (simp_all add: maxDeep_def)
  also have "\<dots> = Some (zeroTime, ?t)"
    by (rule trigger_next_guard) (simp add: maxDeep_def)
  finally show ?thesis .
qed


subsection \<open>The fifteenth at midnight, asked on a tenth that is a Friday\<close>

lemma parse_day15Midnight: "parse ''0 0 0 15 * ?'' = Some (Inr day15Midnight)"
  by (simp add: parse_eval example_eval)

theorem no_matching_day_gives_day_zero_witness:
  "parse ''0 0 0 15 * ?'' = Some (Inr day15Midnight)
   \<and> Weekday (atTime 2025 1 10 0 0 0) = 5
   \<and> Weekday (Date 2025 1 15 0 0 0 0) = 3
   \<and> getRangeDayNextValue 15 15 2025 1 10 5 = 0
   \<and> nextStep day15Midnight (atTime 2025 1 10 0 0 0)
       = Some (Found (atTime 2024 12 31 0 0 0), day15Midnight)
   \<and> trigger_next day15Midnight (atTime 2025 1 10 0 0 0) []
       = Some (atTime 2024 12 31 0 0 0, day15Midnight)"
proof -
  let ?now = "atTime 2025 1 10 0 0 0"
  let ?t = day15Midnight
  note fields = day15Midnight_def plainRange_def
  have a1: "calculate (week ?t) = None" and a2: "calculate (day ?t) = None"
    by (simp_all add: fields)
  have a3: "1 \<le> Day ?now" by (simp add: atTime_sel)
  have a4: "fieldNextValue (mon ?t) (Month ?now) = Some (1, True)"
    by (simp add: atTime_sel fieldNextValue_def getRangeNextValue_eq fields)
  have a5: "1 \<le> (1::nat)" and a6: "(1::nat) \<le> 12" by simp_all
  have wd: "Weekday ?now = 5" by (simp add: time_eval atTime_def)
  have a7: "fieldNextValue (week ?t) (if 1 \<noteq> Month ?now then 0 else Weekday ?now)
            = Some (5, True)"
    using wd by (simp add: atTime_sel fieldNextValue_def getRangeNextValue_eq fields)
  have w15: "Weekday (Date 2025 1 15 0 0 0 0) = 3" by (simp add: time_eval)
  have a8: "\<forall>i. (if isRange (day ?t) then start (day ?t) \<le> i \<and> i \<le> end' (day ?t)
                 else i \<in> set (values' (day ?t)))
                \<and> (if 1 \<noteq> Month ?now then 1 else Day ?now) \<le> i
             \<longrightarrow> Weekday (Date (Year ?now) (int 1) (int i) 0 0 0 0) \<noteq> 5"
  proof (intro allI impI)
    fix i
    assume "(if isRange (day ?t) then start (day ?t) \<le> i \<and> i \<le> end' (day ?t)
             else i \<in> set (values' (day ?t)))
            \<and> (if 1 \<noteq> Month ?now then 1 else Day ?now) \<le> i"
    then have "i = 15" by (simp add: fields)
    then show "Weekday (Date (Year ?now) (int 1) (int i) 0 0 0 0) \<noteq> 5"
      using w15 by (simp add: atTime_sel)
  qed
  have a9: "fieldNextValue (hour ?t) 0 = Some (0, True)"
    and a11: "fieldNextValue (min' ?t) 0 = Some (0, True)"
    and a13: "fieldNextValue (sec ?t) 0 = Some (0, True)"
    by (simp_all add: fieldNextValue_def getRangeNextValue_eq fields)
  have a10: "(0::nat) < 24" and a12: "(0::nat) < 60" by simp_all
  have d0: "Date 2025 1 0 0 0 0 0 = atTime 2024 12 31 0 0 0"
    by (simp add: time_eval atTime_def)
  have r: "isRange (day ?t)" "start (day ?t) = 15" "end' (day ?t) = 15"
    by (simp_all add: fields)
  from no_matching_day_gives_day_zero[OF a1 a2 a3 a4 a5 a6 a7 a8 a9 a10 a11 a12 a13 a12]
  have "getRangeDayNextValue 15 15 2025 1 10 5 = 0
      \<and> nextStep ?t ?now = Some (Found (atTime 2024 12 31 0 0 0), ?t)
      \<and> trigger_next ?t ?now [] = Some (atTime 2024 12 31 0 0 0, ?t)"
    by (simp add: r atTime_sel d0)
  with parse_day15Midnight wd w15 show ?thesis by blast
qed

text \<open>
  Claim C1 asks that the resolver returns an instant that is not before \<open>now\<close>, or the
  zero time. The code does otherwise on the expression \<^verbatim>\<open>0 30 9 1 * ?\<close>, the first of
  every month at 09:30:00. Asked at 00:00:00 of Friday, January 10, 2025, it finds that
  the first is no Friday on or after the tenth, goes on with day 0, and returns
  09:30:00 of December 31, 2024: an instant before \<open>now\<close> that is not the zero time.
\<close>

theorem next_is_before_now:
  "parse ''0 30 9 1 * ?'' = Some (Inr firstDay0930)
   \<and> trigger_next firstDay0930 (atTime 2025 1 10 0 0 0) []
       = Some (atTime 2024 12 31 9 30 0, firstDay0930)
   \<and> Before (atTime 2024 12 31 9 30 0) (atTime 2025 1 10 0 0 0)
   \<and> atTime 2024 12 31 9 30 0 \<noteq> zeroTime"
proof -
  have "atTime 2024 12 31 9 30 0 \<noteq> zeroTime"
    by (simp add: atTime_def zeroTime_def)
  with parse_firstDay0930 next_firstDay0930 before_tenth show ?thesis by blast
qed

text \<open>
  Claim C2 asks that the resolver, asked again one second after an instant it returned,
  returns a later instant that is not the zero time. The code does otherwise.

  \<^item> \<^verbatim>\<open>0 0 0 1 1 ?\<close>, asked at 00:00:00 of January 1, 2025, returns that instant. Asked one
    second later it carries to January 2, finds no first of the month on or after the
    second, goes on with day 0 and returns 00:00:00 of December 31, 2024, which is before
    the instant it returned first.
  \<^item> \<^verbatim>\<open>0 0 0 31W 2 ?\<close>, asked at 00:00:00 of February 1, 2008, returns 00:00:00 of February
    29, 2008. Asked one second later it returns the zero time.
\<close>

theorem next_again_is_not_later:
  "parse ''0 0 0 1 1 ?'' = Some (Inr newYearMidnight)
   \<and> trigger_next newYearMidnight (atTime 2025 1 1 0 0 0) []
       = Some (atTime 2025 1 1 0 0 0, newYearMidnight)
   \<and> atTime 2025 1 1 0 0 0 \<noteq> zeroTime
   \<and> Add (atTime 2025 1 1 0 0 0) Second_ns = atTime 2025 1 1 0 0 1
   \<and> trigger_next newYearMidnight (atTime 2025 1 1 0 0 1) []
       = Some (atTime 2024 12 31 0 0 0, newYearMidnight)
   \<and> Before (atTime 2024 12 31 0 0 0) (atTime 2025 1 1 0 0 0)
   \<and> parse ''0 0 0 31W 2 ?'' = Some (Inr february31W)
   \<and> trigger_next february31W (atTime 2008 2 1 0 0 0) []
       = Some (atTime 2008 2 29 0 0 0, setDayField february31W 29)
   \<and> atTime 2008 2 29 0 0 0 \<noteq> zeroTime
   \<and> Add (atTime 2008 2 29 0 0 0) Second_ns = atTime 2008 2 29 0 0 1
   \<and> trigger_next (setDayField february31W 29) (atTime 2008 2 29 0 0 1) []
       = Some (zeroTime, setDayField february31W 29)"
proof -
  have "atTime 2025 1 1 0 0 0 \<noteq> zeroTime" "atTime 2008 2 29 0 0 0 \<noteq> zeroTime"
    by (simp_all add: atTime_def zeroTime_def)
  with parse_newYearMidnight next_newYearMidnight_1 one_second_later next_newYearMidnight_2
    before_new_year parse_february31W next_february31W_1 next_february31W_2
  show ?thesis by blast
qed

subsection \<open>Tokens that the parser takes\<close>

lemma parse_letter_range:
  "\<exists>t. parse ''a-5 * * * * ?'' = Some (Inr t) \<and> sec t = plainRange ''sec'' 0 5"
  by (simp add: parse_eval plainRange_def)

lemma parse_letter_in_list:
  "\<exists>t. parse ''1,a * * * * ?'' = Some (Inr t) \<and> \<not> isRange (sec t) \<and> values' (sec t) = [0, 1]"
  by (simp add: parse_eval)

lemma parse_letter_work_day:
  "\<exists>t. parse ''0 0 0 xW * ?'' = Some (Inr t) \<and> calculate (day t) = Some (DayNearWork 0)"
  by (simp add: parse_eval)

lemma parse_work_day_99:
  "\<exists>t. parse ''0 0 0 99W * ?'' = Some (Inr t) \<and> calculate (day t) = Some (DayNearWork 99)"
  by (simp add: parse_eval)

lemma parse_hour_30:
  "\<exists>t. parse ''0 0 30 * * ?'' = Some (Inr t) \<and> hour t = plainRange ''hour'' 30 30"
  by (simp add: parse_eval plainRange_def)

text \<open>
  Claim C4 asks that \<open>parse\<close> returns an error for every token with a part that is no
  number, or with a value outside the domain of its field. The code does otherwise.

  \<^item> \<^verbatim>\<open>a-5\<close> for the seconds is taken as the range from 0 to 5, and \<^verbatim>\<open>1,a\<close> as the values
    0 and 1: \<^verbatim>\<open>checkAlias\<close> returns nil for a field that has no aliases, so the error
    of \<^verbatim>\<open>strconv.ParseUint\<close> is dropped and the number is 0.
  \<^item> \<^verbatim>\<open>xW\<close> for the day is taken as \<^verbatim>\<open>0W\<close>, and \<^verbatim>\<open>99W\<close> is taken as it is: the error of
    \<^verbatim>\<open>strconv.ParseUint\<close> is discarded and the number is not compared with 1 and 31.
  \<^item> \<^verbatim>\<open>30\<close> for the hours is taken: a single value of the seconds, minutes and hours is
    only compared with 59.
\<close>

theorem parse_takes_invalid_tokens:
  "(\<exists>t. parse ''a-5 * * * * ?'' = Some (Inr t) \<and> sec t = plainRange ''sec'' 0 5)
   \<and> (\<exists>t. parse ''1,a * * * * ?'' = Some (Inr t) \<and> \<not> isRange (sec t)
          \<and> values' (sec t) = [0, 1])
   \<and> (\<exists>t. parse ''0 0 0 xW * ?'' = Some (Inr t) \<and> calculate (day t) = Some (DayNearWork 0))
   \<and> (\<exists>t. parse ''0 0 0 99W * ?'' = Some (Inr t) \<and> calculate (day t) = Some (DayNearWork 99))
   \<and> (\<exists>t. parse ''0 0 30 * * ?'' = Some (Inr t) \<and> hour t = plainRange ''hour'' 30 30)"
  using parse_letter_range parse_letter_in_list parse_letter_work_day parse_work_day_99
    parse_hour_30
  by blast

subsection \<open>The cached fire time of a job\<close>







end
